theory Spec2Isabelle
  imports Complex_Main "HOL-Library.AList" "HOL-Library.Sublist"
begin

section \<open>Sensor value validation of the GoodWe integration\<close>

text \<open>
  A shallow embedding of \<^verbatim>\<open>custom_components/goodwe/validators.py\<close>: the rule
  tables, \<^verbatim>\<open>ValidationStats\<close> and \<^verbatim>\<open>SensorValidator\<close>. The two classes become
  records, every method that mutates \<^verbatim>\<open>self\<close> takes the record and returns the new
  one, and the loop of \<^verbatim>\<open>validate_data\<close> is a recursion over the items of the
  input dictionary in insertion order.

  Numbers. Python's \<^verbatim>\<open>int\<close> and finite \<^verbatim>\<open>float\<close> values are both modelled by
  the real number they denote (Python compares the two by numeric value, and the validator
  never tells them apart). Comparisons are exact, as they are in Python; the arithmetic of
  the outlier check is rounded to the nearest double after every operation, as Python's
  float operations are. The three non-finite floats are separate values. Overflow to an
  infinity is outside the model, and so is an \<^verbatim>\<open>int\<close> beyond the range of a double, on
  which \<^verbatim>\<open>math.isfinite\<close> raises \<^verbatim>\<open>OverflowError\<close>: the readings are register values.
\<close>

subsection \<open>Values\<close>

datatype number = Fin real | NaN | PosInf | NegInf

text \<open>
  What a reading can hold: \<^verbatim>\<open>None\<close>, a \<^verbatim>\<open>bool\<close>, an \<^verbatim>\<open>int\<close> or \<^verbatim>\<open>float\<close>,
  a \<^verbatim>\<open>str\<close>, or an object of any other type.
\<close>

datatype pyvalue = VNone | VBool bool | VNum number | VStr string | VOther

text \<open>\<^verbatim>\<open>isinstance(value, (int, float)) and not isinstance(value, bool)\<close>\<close>

fun is_numeric :: "pyvalue \<Rightarrow> bool" where
  "is_numeric (VNum n) = True"
| "is_numeric v = False"

subsection \<open>Rule tables\<close>

text \<open>
  \<^verbatim>\<open>MODBUS_ERROR_VALUES = {0xFFFF, 0x7FFF, 0x8000, -32768, 65535}\<close>, the elements in
  the order the source writes them.
\<close>

definition MODBUS_ERROR_VALUES :: "real list" where
  "MODBUS_ERROR_VALUES = [65535, 32767, 32768, - 32768, 65535]"

definition DEFAULT_RANGES :: "string \<rightharpoonup> real \<times> real" where
  "DEFAULT_RANGES = map_of
     [(''V'', (0, 1000)),
      (''A'', (- 150, 150)),
      (''W'', (- 50000, 50000)),
      (''kWh'', (0, 100000)),
      (''VA'', (- 50000, 50000)),
      (''var'', (- 50000, 50000)),
      (''C'', (- 40, 100)),
      (''Hz'', (45, 65)),
      (''%'', (0, 100)),
      (''h'', (0, 1000000))]"

definition SENSOR_SPECIFIC_RANGES :: "string \<rightharpoonup> real \<times> real" where
  "SENSOR_SPECIFIC_RANGES = map_of
     [(''vgrid'', (180, 280)),
      (''vgrid2'', (180, 280)),
      (''vgrid3'', (180, 280)),
      (''vbattery1'', (40, 600)),
      (''vpv1'', (0, 1000)),
      (''vpv2'', (0, 1000)),
      (''vpv3'', (0, 1000)),
      (''vpv4'', (0, 1000)),
      (''fgrid'', (49, 61)),
      (''fgrid2'', (49, 61)),
      (''fgrid3'', (49, 61)),
      (''battery_soc'', (0, 100)),
      (''e_day'', (0, 200)),
      (''e_load_day'', (0, 500))]"

definition MONOTONIC_INCREASING_SENSORS :: "string set" where
  "MONOTONIC_INCREASING_SENSORS =
     {''e_total'', ''e_bat_charge_total'', ''e_bat_discharge_total'',
      ''meter_e_total_exp'', ''meter_e_total_imp'', ''h_total''}"

subsection \<open>Validation statistics\<close>

text \<open>
  The reason of a rejection is an f-string in the source; the model keeps the template
  and the values substituted into it.
\<close>

datatype rejection_reason =
    ModbusErrorValue
  | NonFiniteValue
  | OutsideCustomRange real real
  | OutsideSensorSpecificRange real real
  | OutsideUnitRange string real real
  | MonotonicDecreased real real
  | OutlierRecentRange real real real
  | OutlierMean real real

record failure_entry =
  sensor_id :: string
  rejected_value :: pyvalue
  reason :: rejection_reason

record validation_stats =
  rejected_count :: "string \<rightharpoonup> nat"
  recent_failures :: "failure_entry list"

definition max_recent_failures :: nat where
  "max_recent_failures = 50"

definition new_stats :: validation_stats where
  "new_stats = \<lparr>rejected_count = Map.empty, recent_failures = []\<rparr>"

definition record_rejection ::
  "string \<Rightarrow> pyvalue \<Rightarrow> rejection_reason \<Rightarrow> validation_stats \<Rightarrow> validation_stats" where
  "record_rejection sid v r st =
     (let counts = (rejected_count st)
                     (sid \<mapsto> (case rejected_count st sid of None \<Rightarrow> 0 | Some c \<Rightarrow> c) + 1);
          failures = recent_failures st @ [\<lparr>sensor_id = sid, rejected_value = v, reason = r\<rparr>]
      in \<lparr>rejected_count = counts,
          recent_failures =
            (if length failures > max_recent_failures then tl failures else failures)\<rparr>)"

subsection \<open>The validator\<close>

record validator =
  enable_validation :: bool
  outlier_sensitivity :: real
  custom_ranges :: "string \<rightharpoonup> real \<times> real"
  stats :: validation_stats
  value_history :: "string \<rightharpoonup> real list"
  last_monotonic_values :: "string \<rightharpoonup> real"

definition max_history :: nat where
  "max_history = 10"

text \<open>The constructor; \<^verbatim>\<open>custom_ranges or {}\<close> turns a missing argument into the empty dictionary.\<close>

definition new_validator ::
  "bool \<Rightarrow> real \<Rightarrow> (string \<rightharpoonup> real \<times> real) option \<Rightarrow> validator" where
  "new_validator enable sensitivity ranges =
     \<lparr>enable_validation = enable,
      outlier_sensitivity = sensitivity,
      custom_ranges = (case ranges of None \<Rightarrow> Map.empty | Some m \<Rightarrow> m),
      stats = new_stats,
      value_history = Map.empty,
      last_monotonic_values = Map.empty\<rparr>"

definition reject ::
  "string \<Rightarrow> pyvalue \<Rightarrow> rejection_reason \<Rightarrow> validator \<Rightarrow> validator" where
  "reject sid v r s = s\<lparr>stats := record_rejection sid v r (stats s)\<rparr>"

subsubsection \<open>Error sentinels and finiteness\<close>

text \<open>
  \<^verbatim>\<open>_is_modbus_error\<close>: membership in the table, then the tolerance loop. For
  \<^verbatim>\<open>nan\<close> and the infinities both tests are false in Python (no table entry equals
  them, and \<^verbatim>\<open>abs(value - e)\<close> is \<^verbatim>\<open>nan\<close> or \<^verbatim>\<open>inf\<close>).
\<close>

fun is_modbus_error :: "number \<Rightarrow> bool" where
  "is_modbus_error (Fin x) =
     (if x \<in> set MODBUS_ERROR_VALUES then True
      else list_ex (\<lambda>error_val. \<bar>x - error_val\<bar> < 0.01) MODBUS_ERROR_VALUES)"
| "is_modbus_error n = False"

fun is_finite :: "number \<Rightarrow> bool" where
  "is_finite (Fin x) = True"
| "is_finite n = False"

subsubsection \<open>Unit resolution\<close>

text \<open>\<^verbatim>\<open>sub in s\<close> and \<^verbatim>\<open>s.startswith(p)\<close> on strings.\<close>

primrec str_contains :: "string \<Rightarrow> string \<Rightarrow> bool" where
  "str_contains [] sub = (sub = [])"
| "str_contains (c # cs) sub = (prefix sub (c # cs) \<or> str_contains cs sub)"

definition startswith :: "string \<Rightarrow> string \<Rightarrow> bool" where
  "startswith s p = prefix p s"

text \<open>
  The per-cycle metadata: a dictionary from sensor id to a dictionary of attributes.
  \<^verbatim>\<open>sensor_metadata and sensor_id in sensor_metadata\<close> is false for \<^verbatim>\<open>None\<close>
  and for the empty dictionary, which has no key either.
\<close>

type_synonym metadata = "string \<rightharpoonup> (string \<rightharpoonup> string)"

definition infer_unit :: "string \<Rightarrow> string option" where
  "infer_unit sid =
     (if str_contains sid ''voltage'' \<or> startswith sid ''v'' then Some ''V''
      else if str_contains sid ''current'' \<or> startswith sid ''i'' then Some ''A''
      else if str_contains sid ''power'' \<or> startswith sid ''p'' then Some ''W''
      else if str_contains sid ''energy'' \<or> startswith sid ''e_'' then Some ''kWh''
      else if str_contains sid ''temp'' \<or> str_contains sid ''temperature'' then Some ''C''
      else if str_contains sid ''freq'' \<or> startswith sid ''f'' then Some ''Hz''
      else if str_contains sid ''soc'' \<or> str_contains sid ''%'' then Some ''%''
      else None)"

definition get_sensor_unit :: "string \<Rightarrow> metadata option \<Rightarrow> string option" where
  "get_sensor_unit sid sensor_metadata =
     (case sensor_metadata of
        None \<Rightarrow> infer_unit sid
      | Some m \<Rightarrow>
          (case m sid of
             None \<Rightarrow> infer_unit sid
           | Some attrs \<Rightarrow> attrs ''unit''))"

subsubsection \<open>Double-precision arithmetic\<close>

text \<open>
  Python's \<^verbatim>\<open>float\<close> is an IEEE 754 binary64 number, and each of \<^verbatim>\<open>+\<close>, \<^verbatim>\<open>-\<close>,
  \<^verbatim>\<open>*\<close> and \<^verbatim>\<open>/\<close> returns the double nearest the exact result, a tie going to the
  even significand. \<open>round_double\<close> is that rounding: the exponent of \<open>\<bar>x\<bar>\<close> is found by
  halving or doubling, it is kept at \<open>-1022\<close> or above (the subnormal range), and \<open>\<bar>x\<bar>\<close> is
  rounded to a multiple of \<open>2\<close> to the power of the exponent minus 52. Results beyond the
  largest double, which Python turns into an infinity, are not cut off. An \<^verbatim>\<open>int\<close>
  operand enters an operation with its exact value, as it does in Python while its magnitude
  is at most \<open>2 ^ 53\<close>.
\<close>

function log2_up :: "real \<Rightarrow> int" where
  "log2_up x = (if 2 \<le> x then log2_up (x / 2) + 1 else 0)"
  by pat_completeness auto
termination
proof (relation "measure (\<lambda>x. nat \<lfloor>x\<rfloor>)")
  show "wf (measure (\<lambda>x::real. nat \<lfloor>x\<rfloor>))" by simp
next
  fix x :: real
  assume "2 \<le> x"
  then have "x / 2 \<le> x - 1" by simp
  then have "\<lfloor>x / 2\<rfloor> \<le> \<lfloor>x - 1\<rfloor>" by (rule floor_mono)
  moreover have "\<lfloor>x - 1\<rfloor> = \<lfloor>x\<rfloor> - 1" by simp
  moreover from \<open>2 \<le> x\<close> have "2 \<le> \<lfloor>x\<rfloor>" by (simp add: le_floor_iff)
  ultimately show "(x / 2, x) \<in> measure (\<lambda>x. nat \<lfloor>x\<rfloor>)" by simp
qed

function log2_down :: "real \<Rightarrow> int" where
  "log2_down x = (if 0 < x \<and> x < 1 then log2_down (2 * x) - 1 else 0)"
  by pat_completeness auto
termination
proof (relation "measure (\<lambda>x. nat \<lfloor>1 / x\<rfloor>)")
  show "wf (measure (\<lambda>x::real. nat \<lfloor>1 / x\<rfloor>))" by simp
next
  fix x :: real
  assume a: "0 < x \<and> x < 1"
  then have y: "1 < 1 / x" by simp
  then have f1: "1 \<le> \<lfloor>1 / x\<rfloor>" by (simp add: le_floor_iff)
  have "\<lfloor>1 / (2 * x)\<rfloor> < \<lfloor>1 / x\<rfloor>"
  proof (cases "2 \<le> 1 / x")
    case True
    then have "1 / (2 * x) \<le> 1 / x - 1" using a by (simp add: field_simps)
    then have "\<lfloor>1 / (2 * x)\<rfloor> \<le> \<lfloor>1 / x - 1\<rfloor>" by (rule floor_mono)
    then show ?thesis by simp
  next
    case False
    then have "1 / (2 * x) < 1" using a by (simp add: field_simps)
    then have "\<lfloor>1 / (2 * x)\<rfloor> < 1" by (simp add: floor_less_iff)
    with f1 show ?thesis by linarith
  qed
  with f1 show "(2 * x, x) \<in> measure (\<lambda>x. nat \<lfloor>1 / x\<rfloor>)" by simp
qed

declare log2_up.simps [simp del] log2_down.simps [simp del]

text \<open>The binary exponent of a positive number: \<open>2 ^ e \<le> x < 2 ^ (e + 1)\<close>.\<close>

definition double_exponent :: "real \<Rightarrow> int" where
  "double_exponent x = (if 1 \<le> x then log2_up x else log2_down x)"

definition round_half_even :: "real \<Rightarrow> int" where
  "round_half_even y =
     (let f = \<lfloor>y\<rfloor> in
      if y - of_int f < 1 / 2 then f
      else if 1 / 2 < y - of_int f then f + 1
      else if even f then f else f + 1)"

text \<open>Division and multiplication by \<open>2 ^ k\<close> for an integer \<open>k\<close> of either sign.\<close>

definition unscale :: "real \<Rightarrow> int \<Rightarrow> real" where
  "unscale y k = (if 0 \<le> k then y / 2 ^ nat k else y * 2 ^ nat (- k))"

definition scale :: "int \<Rightarrow> int \<Rightarrow> real" where
  "scale m k = (if 0 \<le> k then of_int m * 2 ^ nat k else of_int m / 2 ^ nat (- k))"

definition round_double :: "real \<Rightarrow> real" where
  "round_double x =
     (if x = 0 then 0
      else
        (let k = max (double_exponent \<bar>x\<bar>) (- 1022) - 52
         in sgn x * scale (round_half_even (unscale \<bar>x\<bar> k)) k))"

definition float_add :: "real \<Rightarrow> real \<Rightarrow> real" where
  "float_add a b = round_double (a + b)"

definition float_sub :: "real \<Rightarrow> real \<Rightarrow> real" where
  "float_sub a b = round_double (a - b)"

definition float_mul :: "real \<Rightarrow> real \<Rightarrow> real" where
  "float_mul a b = round_double (a * b)"

definition float_div :: "real \<Rightarrow> real \<Rightarrow> real" where
  "float_div a b = round_double (a / b)"

text \<open>The built-in \<^verbatim>\<open>sum\<close>: it starts at 0 and adds the items from the left.\<close>

definition py_sum :: "real list \<Rightarrow> real" where
  "py_sum xs = foldl float_add 0 xs"

subsubsection \<open>Range, monotonic and outlier checks\<close>

definition validate_range ::
  "string \<Rightarrow> real \<Rightarrow> string option \<Rightarrow> validator \<Rightarrow> bool \<times> validator" where
  "validate_range sid x unit s =
     (case custom_ranges s sid of
        Some (min_val, max_val) \<Rightarrow>
          (if \<not> (min_val \<le> x \<and> x \<le> max_val)
           then (False, reject sid (VNum (Fin x)) (OutsideCustomRange min_val max_val) s)
           else (True, s))
      | None \<Rightarrow>
          (case SENSOR_SPECIFIC_RANGES sid of
             Some (min_val, max_val) \<Rightarrow>
               (if \<not> (min_val \<le> x \<and> x \<le> max_val)
                then (False,
                      reject sid (VNum (Fin x)) (OutsideSensorSpecificRange min_val max_val) s)
                else (True, s))
           | None \<Rightarrow>
               (case unit of
                  None \<Rightarrow> (True, s)
                | Some u \<Rightarrow>
                    (if u = [] then (True, s)
                     else
                       (case DEFAULT_RANGES u of
                          None \<Rightarrow> (True, s)
                        | Some (min_val, max_val) \<Rightarrow>
                            (if \<not> (min_val \<le> x \<and> x \<le> max_val)
                             then (False,
                                   reject sid (VNum (Fin x))
                                     (OutsideUnitRange u min_val max_val) s)
                             else (True, s)))))))"

definition validate_monotonic :: "string \<Rightarrow> real \<Rightarrow> validator \<Rightarrow> bool \<times> validator" where
  "validate_monotonic sid x s =
     (if sid \<notin> MONOTONIC_INCREASING_SENSORS then (True, s)
      else
        (case last_monotonic_values s sid of
           None \<Rightarrow> (True, s\<lparr>last_monotonic_values := (last_monotonic_values s)(sid \<mapsto> x)\<rparr>)
         | Some last_value \<Rightarrow>
             (if x < last_value
              then (False, reject sid (VNum (Fin x)) (MonotonicDecreased last_value x) s)
              else (True, s\<lparr>last_monotonic_values := (last_monotonic_values s)(sid \<mapsto> x)\<rparr>))))"

text \<open>
  \<^verbatim>\<open>_validate_outlier\<close>. The mean, the range, the thresholds and the deviation are the
  results of float operations; the comparisons and \<^verbatim>\<open>abs\<close>, \<^verbatim>\<open>max\<close>, \<^verbatim>\<open>min\<close> are
  exact. The literal \<^verbatim>\<open>0.1\<close> is the double nearest one tenth.
\<close>

definition validate_outlier :: "string \<Rightarrow> real \<Rightarrow> validator \<Rightarrow> bool \<times> validator" where
  "validate_outlier sid x s =
     (case value_history s sid of
        None \<Rightarrow> (True, s)
      | Some history \<Rightarrow>
          (if length history < 3 then (True, s)
           else
             (let mean = float_div (py_sum history) (real (length history));
                  max_recent = Max (set history);
                  min_recent = Min (set history)
              in if \<bar>mean\<bar> < round_double 0.1
                 then
                   (let range_val = float_sub max_recent min_recent;
                        threshold = float_mul range_val (outlier_sensitivity s)
                    in if \<bar>x\<bar> > float_add threshold (max \<bar>max_recent\<bar> \<bar>min_recent\<bar>)
                       then (False,
                             reject sid (VNum (Fin x))
                               (OutlierRecentRange x min_recent max_recent) s)
                       else (True, s))
                 else
                   (let threshold = float_mul \<bar>mean\<bar> (outlier_sensitivity s)
                    in if \<bar>float_sub x mean\<bar> > threshold
                       then (False, reject sid (VNum (Fin x)) (OutlierMean x mean) s)
                       else (True, s)))))"

subsubsection \<open>The verdict on one value\<close>

text \<open>
  \<^verbatim>\<open>_validate_value\<close>. A non-finite float passes the sentinel test (see
  \<open>is_modbus_error\<close>) and fails \<^verbatim>\<open>math.isfinite\<close>, so the checks after the
  finiteness check only ever see a finite number.
\<close>

fun validate_value ::
  "string \<Rightarrow> pyvalue \<Rightarrow> metadata option \<Rightarrow> validator \<Rightarrow> bool \<times> validator" where
  "validate_value sid VNone md s = (True, s)"
| "validate_value sid (VNum (Fin x)) md s =
     (if is_modbus_error (Fin x) then (False, reject sid (VNum (Fin x)) ModbusErrorValue s)
      else if \<not> is_finite (Fin x) then (False, reject sid (VNum (Fin x)) NonFiniteValue s)
      else
        (let unit = get_sensor_unit sid md in
         case validate_range sid x unit s of
           (False, s1) \<Rightarrow> (False, s1)
         | (True, s1) \<Rightarrow>
             (case validate_monotonic sid x s1 of
                (False, s2) \<Rightarrow> (False, s2)
              | (True, s2) \<Rightarrow>
                  (case validate_outlier sid x s2 of
                     (False, s3) \<Rightarrow> (False, s3)
                   | (True, s3) \<Rightarrow> (True, s3)))))"
| "validate_value sid (VNum n) md s =
     (if is_modbus_error n then (False, reject sid (VNum n) ModbusErrorValue s)
      else if \<not> is_finite n then (False, reject sid (VNum n) NonFiniteValue s)
      else (True, s))"
| "validate_value sid v md s = (True, s)"

subsubsection \<open>History and the batch entry point\<close>

definition update_history :: "string \<Rightarrow> real \<Rightarrow> validator \<Rightarrow> validator" where
  "update_history sid x s =
     (let history = (case value_history s sid of None \<Rightarrow> [] | Some h \<Rightarrow> h) @ [x]
      in s\<lparr>value_history := (value_history s)
             (sid \<mapsto> (if length history > max_history then tl history else history))\<rparr>)"

text \<open>
  The loop of \<^verbatim>\<open>validate_data\<close> over \<^verbatim>\<open>data.items()\<close>, carrying the output
  dictionary (in insertion order) and the validator. The history is updated for an accepted
  \<^verbatim>\<open>int\<close> or \<^verbatim>\<open>float\<close>; a non-finite float is never accepted, so the branch that
  would append it is not reached.
\<close>

fun validate_loop ::
  "(string \<times> pyvalue) list \<Rightarrow> metadata option \<Rightarrow> (string \<times> pyvalue) list \<Rightarrow> validator
     \<Rightarrow> (string \<times> pyvalue) list \<times> validator" where
  "validate_loop [] md validated_data s = (validated_data, s)"
| "validate_loop ((sid, v) # rest) md validated_data s =
     (case validate_value sid v md s of
        (True, s1) \<Rightarrow>
          validate_loop rest md (AList.update sid v validated_data)
            (case v of VNum (Fin x) \<Rightarrow> update_history sid x s1 | _ \<Rightarrow> s1)
      | (False, s1) \<Rightarrow> validate_loop rest md validated_data s1)"

definition validate_data ::
  "(string \<times> pyvalue) list \<Rightarrow> metadata option \<Rightarrow> validator
     \<Rightarrow> (string \<times> pyvalue) list \<times> validator" where
  "validate_data data md s =
     (if \<not> enable_validation s then (data, s)
      else validate_loop data md [] s)"

subsection \<open>Sequences of calls and auxiliary notions\<close>

text \<open>
  A validator lives through a sequence of \<^verbatim>\<open>validate_data\<close> calls, one per polling
  cycle; \<open>run_calls\<close> returns the output of every call and the validator after the last.
\<close>

fun run_calls ::
  "((string \<times> pyvalue) list \<times> metadata option) list \<Rightarrow> validator
     \<Rightarrow> (string \<times> pyvalue) list list \<times> validator" where
  "run_calls [] s = ([], s)"
| "run_calls ((data, md) # calls) s =
     (case validate_data data md s of
        (out, s1) \<Rightarrow> (case run_calls calls s1 of (outs, s2) \<Rightarrow> (out # outs, s2)))"

text \<open>The rejection counter of a sensor, read as \<^verbatim>\<open>rejected_count.get(sensor_id, 0)\<close>.\<close>

definition count_of :: "validator \<Rightarrow> string \<Rightarrow> nat" where
  "count_of s sid = (case rejected_count (stats s) sid of None \<Rightarrow> 0 | Some c \<Rightarrow> c)"

text \<open>The assignment \<^verbatim>\<open>self._last_monotonic_values[sensor_id] = value\<close> on its own.\<close>

definition track :: "string \<Rightarrow> real \<Rightarrow> validator \<Rightarrow> validator" where
  "track sid x s = s\<lparr>last_monotonic_values := (last_monotonic_values s)(sid \<mapsto> x)\<rparr>"

text \<open>When the monotonic check makes that assignment: the sensor is monotonic and has not regressed.\<close>

definition tracked_ok :: "string \<Rightarrow> real \<Rightarrow> validator \<Rightarrow> bool" where
  "tracked_ok sid x s =
     (sid \<in> MONOTONIC_INCREASING_SENSORS \<and>
      (case last_monotonic_values s sid of None \<Rightarrow> True | Some t \<Rightarrow> t \<le> x))"

text \<open>One iteration of the loop of \<^verbatim>\<open>validate_data\<close>: the verdict and the state after it.\<close>

definition step ::
  "string \<Rightarrow> pyvalue \<Rightarrow> metadata option \<Rightarrow> validator \<Rightarrow> bool \<times> validator" where
  "step sid v md s =
     (case validate_value sid v md s of
        (True, s1) \<Rightarrow> (True, (case v of VNum (Fin x) \<Rightarrow> update_history sid x s1 | _ \<Rightarrow> s1))
      | (False, s1) \<Rightarrow> (False, s1))"

subsection \<open>The checks as predicates\<close>

text \<open>
  The range rule with its precedence, the outlier rule and the regression rule, written
  as predicates on the value; the lemmas below show that each check of the validator
  decides exactly its predicate.
\<close>

definition resolved_range ::
  "(string \<rightharpoonup> real \<times> real) \<Rightarrow> string \<Rightarrow> string option \<Rightarrow> (real \<times> real) option" where
  "resolved_range custom sid unit =
     (case custom sid of
        Some b \<Rightarrow> Some b
      | None \<Rightarrow>
          (case SENSOR_SPECIFIC_RANGES sid of
             Some b \<Rightarrow> Some b
           | None \<Rightarrow> (case unit of None \<Rightarrow> None | Some u \<Rightarrow> DEFAULT_RANGES u)))"

definition in_bounds :: "(real \<times> real) option \<Rightarrow> real \<Rightarrow> bool" where
  "in_bounds b x = (case b of None \<Rightarrow> True | Some (lo, hi) \<Rightarrow> lo \<le> x \<and> x \<le> hi)"

text \<open>The arithmetic mean on exact reals, and the mean as the validator computes it.\<close>

definition mean :: "real list \<Rightarrow> real" where
  "mean h = sum_list h / real (length h)"

definition float_mean :: "real list \<Rightarrow> real" where
  "float_mean h = float_div (py_sum h) (real (length h))"

definition is_outlier :: "real \<Rightarrow> real list \<Rightarrow> real \<Rightarrow> bool" where
  "is_outlier sensitivity h x =
     (3 \<le> length h \<and>
      (if \<bar>float_mean h\<bar> < round_double 0.1
       then \<bar>x\<bar> > float_add (float_mul (float_sub (Max (set h)) (Min (set h))) sensitivity)
                    (max \<bar>Max (set h)\<bar> \<bar>Min (set h)\<bar>)
       else \<bar>float_sub x (float_mean h)\<bar> > float_mul \<bar>float_mean h\<bar> sensitivity))"

definition outlier_of :: "validator \<Rightarrow> string \<Rightarrow> real \<Rightarrow> bool" where
  "outlier_of s sid x =
     (case value_history s sid of None \<Rightarrow> False
      | Some h \<Rightarrow> is_outlier (outlier_sensitivity s) h x)"

definition regresses :: "validator \<Rightarrow> string \<Rightarrow> real \<Rightarrow> bool" where
  "regresses s sid x =
     (sid \<in> MONOTONIC_INCREASING_SENSORS \<and>
      (case last_monotonic_values s sid of None \<Rightarrow> False | Some t \<Rightarrow> x < t))"

text \<open>
  Two validators agree on everything the verdict on one sensor reads or writes: the
  configuration, and the history, tracker and rejection counter of that sensor.
\<close>

definition local_eq :: "string \<Rightarrow> validator \<Rightarrow> validator \<Rightarrow> bool" where
  "local_eq sid s s' =
     (custom_ranges s' = custom_ranges s \<and>
      outlier_sensitivity s' = outlier_sensitivity s \<and>
      enable_validation s' = enable_validation s \<and>
      value_history s' sid = value_history s sid \<and>
      last_monotonic_values s' sid = last_monotonic_values s sid \<and>
      rejected_count (stats s') sid = rejected_count (stats s) sid)"

subsection \<open>Sample readings and further notions\<close>

text \<open>
  Two short lives of a validator built with the defaults (validation on, sensitivity 5, no
  custom range): three cycles of a power sensor, and three cycles of the lifetime energy
  counter.
\<close>

definition ppv_calls :: "((string \<times> pyvalue) list \<times> metadata option) list" where
  "ppv_calls =
     [([(''ppv'', VNum (Fin 100))], None),
      ([(''ppv'', VNum (Fin 102))], None),
      ([(''ppv'', VNum (Fin 98))], None)]"

definition e_total_calls :: "((string \<times> pyvalue) list \<times> metadata option) list" where
  "e_total_calls =
     [([(''e_total'', VNum (Fin 100))], None),
      ([(''e_total'', VNum (Fin 101))], None),
      ([(''e_total'', VNum (Fin 102))], None)]"


text \<open>The sequence of readings of the lifetime energy counter in the scenario of the spec.\<close>

definition e_total_scenario :: "((string \<times> pyvalue) list \<times> metadata option) list" where
  "e_total_scenario =
     [([(''e_total'', VNum (Fin 100))], None),
      ([(''e_total'', VNum (Fin 105))], None),
      ([(''e_total'', VNum (Fin 103))], None),
      ([(''e_total'', VNum (Fin 105))], None),
      ([(''e_total'', VNum (Fin 110))], None)]"

text \<open>
  A value is rejected as an error sentinel when the verdict is \<open>False\<close> and the entry the
  verdict appended to the failure log carries the sentinel reason.
\<close>

definition rejected_as_sentinel ::
  "string \<Rightarrow> pyvalue \<Rightarrow> metadata option \<Rightarrow> validator \<Rightarrow> bool" where
  "rejected_as_sentinel sid v md s =
     (case validate_value sid v md s of
        (ok, s') \<Rightarrow>
          \<not> ok \<and> recent_failures (stats s') \<noteq> [] \<and>
          last (recent_failures (stats s')) =
            \<lparr>sensor_id = sid, rejected_value = v, reason = ModbusErrorValue\<rparr>)"

text \<open>The two bounds on the rolling state: the history window and the failure log.\<close>

definition bounded :: "validator \<Rightarrow> bool" where
  "bounded s =
     ((\<forall>sid h. value_history s sid = Some h \<longrightarrow> length h \<le> max_history) \<and>
      length (recent_failures (stats s)) \<le> max_recent_failures)"

text \<open>Ten polling cycles of the power sensor, with the readings 100 to 109.\<close>

definition ppv_ten_calls :: "((string \<times> pyvalue) list \<times> metadata option) list" where
  "ppv_ten_calls =
     map (\<lambda>x. ([(''ppv'', VNum (Fin x))], None))
       [100, 101, 102, 103, 104, 105, 106, 107, 108, 109]"

text \<open>A failure log at its capacity: fifty entries for a failed read of the grid voltage.\<close>

definition full_stats :: validation_stats where
  "full_stats =
     \<lparr>rejected_count = [''vgrid'' \<mapsto> 50],
      recent_failures =
        replicate 50
          \<lparr>sensor_id = ''vgrid'', rejected_value = VNum (Fin 65535), reason = ModbusErrorValue\<rparr>\<rparr>"

section \<open>Basic facts\<close>

declare is_modbus_error.simps(1) [simp del]

lemma validate_loop_step:
  "validate_loop ((sid, v) # rest) md out s =
     validate_loop rest md (if fst (step sid v md s) then AList.update sid v out else out)
       (snd (step sid v md s))"
  by (simp add: step_def split: prod.splits bool.splits)

lemma reject_fields [simp]:
  "enable_validation (reject sid v r s) = enable_validation s"
  "outlier_sensitivity (reject sid v r s) = outlier_sensitivity s"
  "custom_ranges (reject sid v r s) = custom_ranges s"
  "value_history (reject sid v r s) = value_history s"
  "last_monotonic_values (reject sid v r s) = last_monotonic_values s"
  "stats (reject sid v r s) = record_rejection sid v r (stats s)"
  by (simp_all add: reject_def)

lemma track_fields [simp]:
  "enable_validation (track sid x s) = enable_validation s"
  "outlier_sensitivity (track sid x s) = outlier_sensitivity s"
  "custom_ranges (track sid x s) = custom_ranges s"
  "value_history (track sid x s) = value_history s"
  "last_monotonic_values (track sid x s) = (last_monotonic_values s)(sid \<mapsto> x)"
  "stats (track sid x s) = stats s"
  by (simp_all add: track_def)

lemma update_history_fields [simp]:
  "enable_validation (update_history sid x s) = enable_validation s"
  "outlier_sensitivity (update_history sid x s) = outlier_sensitivity s"
  "custom_ranges (update_history sid x s) = custom_ranges s"
  "last_monotonic_values (update_history sid x s) = last_monotonic_values s"
  "stats (update_history sid x s) = stats s"
  "k \<noteq> sid \<Longrightarrow> value_history (update_history sid x s) k = value_history s k"
  by (simp_all add: update_history_def Let_def)

lemma record_rejection_fields [simp]:
  "rejected_count (record_rejection sid v r st) =
     (rejected_count st)(sid \<mapsto> (case rejected_count st sid of None \<Rightarrow> 0 | Some c \<Rightarrow> c) + 1)"
  "recent_failures (record_rejection sid v r st) =
     (if length (recent_failures st) \<ge> max_recent_failures
      then tl (recent_failures st @ [\<lparr>sensor_id = sid, rejected_value = v, reason = r\<rparr>])
      else recent_failures st @ [\<lparr>sensor_id = sid, rejected_value = v, reason = r\<rparr>])"
  by (auto simp: record_rejection_def Let_def)

lemma validate_range_cases:
  "validate_range sid x unit s = (True, s) \<or>
   (\<exists>r. validate_range sid x unit s = (False, reject sid (VNum (Fin x)) r s))"
  by (auto simp: validate_range_def split: option.splits)

lemma validate_monotonic_cases:
  "validate_monotonic sid x s = (True, s) \<and> sid \<notin> MONOTONIC_INCREASING_SENSORS \<or>
   validate_monotonic sid x s = (True, track sid x s) \<and> tracked_ok sid x s \<or>
   (\<exists>t. validate_monotonic sid x s = (False, reject sid (VNum (Fin x)) (MonotonicDecreased t x) s)
     \<and> sid \<in> MONOTONIC_INCREASING_SENSORS \<and> last_monotonic_values s sid = Some t \<and> x < t)"
  by (auto simp: validate_monotonic_def track_def tracked_ok_def split: option.splits)

lemma validate_outlier_cases:
  "validate_outlier sid x s = (True, s) \<or>
   (\<exists>r. validate_outlier sid x s = (False, reject sid (VNum (Fin x)) r s))"
  by (auto simp: validate_outlier_def Let_def split: option.splits)

text \<open>
  The four shapes of a verdict on a finite number: accepted with or without the tracker
  assignment, rejected with or without it.
\<close>

lemma validate_value_fin_shape:
  "validate_value sid (VNum (Fin x)) md s = (True, s) \<and> sid \<notin> MONOTONIC_INCREASING_SENSORS \<or>
   validate_value sid (VNum (Fin x)) md s = (True, track sid x s) \<and> tracked_ok sid x s \<or>
   (\<exists>r. validate_value sid (VNum (Fin x)) md s = (False, reject sid (VNum (Fin x)) r s)) \<or>
   (\<exists>r. validate_value sid (VNum (Fin x)) md s = (False, reject sid (VNum (Fin x)) r (track sid x s))
      \<and> tracked_ok sid x s)"
proof (cases "is_modbus_error (Fin x)")
  case True
  then show ?thesis by auto
next
  case False
  note nerr = this
  consider "validate_range sid x (get_sensor_unit sid md) s = (True, s)"
    | r where "validate_range sid x (get_sensor_unit sid md) s = (False, reject sid (VNum (Fin x)) r s)"
    using validate_range_cases by blast
  then show ?thesis
  proof cases
    case 2
    with nerr show ?thesis by auto
  next
    case 1
    note rng = this
    consider (a) "validate_monotonic sid x s = (True, s)" "sid \<notin> MONOTONIC_INCREASING_SENSORS"
      | (b) "validate_monotonic sid x s = (True, track sid x s)" "tracked_ok sid x s"
      | (c) r where "validate_monotonic sid x s = (False, reject sid (VNum (Fin x)) r s)"
      using validate_monotonic_cases [of sid x s] by blast
    then show ?thesis
    proof cases
      case a
      with nerr rng validate_outlier_cases [of sid x s] show ?thesis by auto
    next
      case b
      with nerr rng validate_outlier_cases [of sid x "track sid x s"] show ?thesis by auto
    next
      case c
      with nerr rng show ?thesis by auto
    qed
  qed
qed

lemma validate_value_nonfinite:
  "\<forall>x. n \<noteq> Fin x \<Longrightarrow>
     validate_value sid (VNum n) md s = (False, reject sid (VNum n) NonFiniteValue s)"
  by (cases n) auto

lemma validate_value_passthrough:
  "\<not> is_numeric v \<Longrightarrow> validate_value sid v md s = (True, s)"
  by (cases v) auto

lemma step_shape:
  "step sid v md s = (True, s) \<and> \<not> is_numeric v \<or>
   (\<exists>x. v = VNum (Fin x) \<and>
      (step sid v md s = (True, update_history sid x s) \<and> sid \<notin> MONOTONIC_INCREASING_SENSORS \<or>
       step sid v md s = (True, update_history sid x (track sid x s)) \<and> tracked_ok sid x s \<or>
       (\<exists>r. step sid v md s = (False, reject sid v r (track sid x s))) \<and> tracked_ok sid x s)) \<or>
   (\<exists>r. step sid v md s = (False, reject sid v r s))"
proof (cases v)
  case (VNum n)
  show ?thesis
  proof (cases n)
    case (Fin x)
    with VNum validate_value_fin_shape [of sid x md s] show ?thesis
      by (auto simp: step_def)
  next
    case NaN
    with VNum show ?thesis by (auto simp: step_def)
  next
    case PosInf
    with VNum show ?thesis by (auto simp: step_def)
  next
    case NegInf
    with VNum show ?thesis by (auto simp: step_def)
  qed
qed (simp_all add: step_def)

lemma step_config:
  "enable_validation (snd (step sid v md s)) = enable_validation s"
  "outlier_sensitivity (snd (step sid v md s)) = outlier_sensitivity s"
  "custom_ranges (snd (step sid v md s)) = custom_ranges s"
  using step_shape [of sid v md s] by auto

lemma step_other_key:
  assumes "k \<noteq> sid"
  shows "value_history (snd (step sid v md s)) k = value_history s k"
    and "last_monotonic_values (snd (step sid v md s)) k = last_monotonic_values s k"
    and "rejected_count (stats (snd (step sid v md s))) k = rejected_count (stats s) k"
  using step_shape [of sid v md s] assms by auto

lemma in_set_tl: "x \<in> set (tl xs) \<Longrightarrow> x \<in> set xs"
  by (cases xs) auto

lemma step_failures:
  "f \<in> set (recent_failures (stats (snd (step sid v md s)))) \<Longrightarrow>
     f \<in> set (recent_failures (stats s)) \<or> sensor_id f = sid \<and> \<not> fst (step sid v md s)"
  using step_shape [of sid v md s]
  by (auto dest!: in_set_tl split: if_splits)

lemma step_rejected_history:
  "\<not> fst (step sid v md s) \<Longrightarrow> value_history (snd (step sid v md s)) = value_history s"
  using step_shape [of sid v md s] by auto

lemma step_count_mono: "count_of s k \<le> count_of (snd (step sid v md s)) k"
  using step_shape [of sid v md s] by (auto simp: count_of_def split: option.splits if_splits)

lemma step_tracker_mono:
  assumes "last_monotonic_values s k = Some t"
  shows "\<exists>t'. last_monotonic_values (snd (step sid v md s)) k = Some t' \<and> t \<le> t'"
  using step_shape [of sid v md s] assms by (auto simp: tracked_ok_def)

lemma DEFAULT_RANGES_empty: "DEFAULT_RANGES [] = None"
  by (simp add: DEFAULT_RANGES_def)

lemma validate_range_verdict:
  "fst (validate_range sid x unit s) = in_bounds (resolved_range (custom_ranges s) sid unit) x"
  by (auto simp: validate_range_def resolved_range_def in_bounds_def DEFAULT_RANGES_empty
      split: option.splits)

lemma validate_monotonic_verdict:
  "fst (validate_monotonic sid x s) = (\<not> regresses s sid x)"
  by (auto simp: validate_monotonic_def regresses_def split: option.splits)

lemma validate_outlier_verdict:
  "fst (validate_outlier sid x s) = (\<not> outlier_of s sid x)"
  by (auto simp: validate_outlier_def outlier_of_def is_outlier_def float_mean_def Let_def
      split: option.splits)

lemma outlier_of_track [simp]: "outlier_of (track sid x s) k y = outlier_of s k y"
  by (simp add: outlier_of_def split: option.splits)

lemma validate_value_verdict:
  "fst (validate_value sid (VNum (Fin x)) md s) =
     (\<not> is_modbus_error (Fin x) \<and>
      in_bounds (resolved_range (custom_ranges s) sid (get_sensor_unit sid md)) x \<and>
      \<not> regresses s sid x \<and> \<not> outlier_of s sid x)"
proof (cases "is_modbus_error (Fin x)")
  case True
  then show ?thesis by simp
next
  case False
  show ?thesis
  proof (cases "fst (validate_range sid x (get_sensor_unit sid md) s)")
    case False
    with \<open>\<not> is_modbus_error (Fin x)\<close> validate_range_verdict [of sid x "get_sensor_unit sid md" s]
    show ?thesis by (auto split: prod.splits bool.splits)
  next
    case True
    then have rng: "validate_range sid x (get_sensor_unit sid md) s = (True, s)"
      using validate_range_cases [of sid x "get_sensor_unit sid md" s] by auto
    have inb: "in_bounds (resolved_range (custom_ranges s) sid (get_sensor_unit sid md)) x"
      using True by (simp add: validate_range_verdict)
    consider (a) "validate_monotonic sid x s = (True, s)"
      | (b) "validate_monotonic sid x s = (True, track sid x s)"
      | (c) r where "validate_monotonic sid x s = (False, reject sid (VNum (Fin x)) r s)"
      using validate_monotonic_cases [of sid x s] by blast
    then show ?thesis
    proof cases
      case a
      with validate_monotonic_verdict [of sid x s] have "\<not> regresses s sid x" by simp
      with a rng inb \<open>\<not> is_modbus_error (Fin x)\<close> validate_outlier_verdict [of sid x s]
      show ?thesis by (auto split: prod.splits bool.splits)
    next
      case b
      with validate_monotonic_verdict [of sid x s] have "\<not> regresses s sid x" by simp
      with b rng inb \<open>\<not> is_modbus_error (Fin x)\<close>
        validate_outlier_verdict [of sid x "track sid x s"]
      show ?thesis by (auto split: prod.splits bool.splits)
    next
      case c
      with validate_monotonic_verdict [of sid x s] have "regresses s sid x" by simp
      with c rng \<open>\<not> is_modbus_error (Fin x)\<close> show ?thesis by simp
    qed
  qed
qed

lemma step_verdict: "fst (step sid v md s) = fst (validate_value sid v md s)"
  by (simp add: step_def split: prod.splits bool.splits)

section \<open>The loop over a batch\<close>

declare validate_loop.simps(2) [simp del]

lemma validate_loop_append:
  "validate_loop (xs @ ys) md out s =
     validate_loop ys md (fst (validate_loop xs md out s)) (snd (validate_loop xs md out s))"
proof (induction xs arbitrary: out s)
  case Nil
  show ?case by simp
next
  case (Cons p xs)
  obtain sid v where p: "p = (sid, v)" by (cases p)
  show ?case by (simp add: p validate_loop_step Cons.IH)
qed

lemma local_eq_refl [simp]: "local_eq sid s s"
  by (simp add: local_eq_def)

lemma local_eq_trans: "local_eq sid s s1 \<Longrightarrow> local_eq sid s1 s2 \<Longrightarrow> local_eq sid s s2"
  by (simp add: local_eq_def)

lemma step_local_eq: "k \<noteq> sid \<Longrightarrow> local_eq k s (snd (step sid v md s))"
  by (simp add: local_eq_def step_config step_other_key)

lemma loop_other_key:
  "k \<notin> fst ` set data \<Longrightarrow>
     map_of (fst (validate_loop data md out s)) k = map_of out k \<and>
     local_eq k s (snd (validate_loop data md out s))"
proof (induction data arbitrary: out s)
  case Nil
  show ?case by simp
next
  case (Cons p data)
  obtain sid v where p: "p = (sid, v)" by (cases p)
  from Cons.prems p have ne: "k \<noteq> sid" and nin: "k \<notin> fst ` set data" by auto
  let ?out1 = "if fst (step sid v md s) then AList.update sid v out else out"
  let ?s1 = "snd (step sid v md s)"
  from Cons.IH [OF nin, of ?out1 ?s1]
  have ih: "map_of (fst (validate_loop data md ?out1 ?s1)) k = map_of ?out1 k"
    "local_eq k ?s1 (snd (validate_loop data md ?out1 ?s1))" by simp_all
  have "map_of ?out1 k = map_of out k" using ne by (simp add: update_conv')
  moreover have "local_eq k s ?s1" using ne by (rule step_local_eq)
  ultimately show ?case
    using ih by (simp add: p validate_loop_step local_eq_trans [of k s ?s1])
qed

lemma loop_config:
  "enable_validation (snd (validate_loop data md out s)) = enable_validation s \<and>
   outlier_sensitivity (snd (validate_loop data md out s)) = outlier_sensitivity s \<and>
   custom_ranges (snd (validate_loop data md out s)) = custom_ranges s"
proof (induction data arbitrary: out s)
  case Nil
  show ?case by simp
next
  case (Cons p data)
  obtain sid v where p: "p = (sid, v)" by (cases p)
  show ?case by (simp add: p validate_loop_step Cons.IH step_config)
qed

lemma loop_count_mono: "count_of s k \<le> count_of (snd (validate_loop data md out s)) k"
proof (induction data arbitrary: out s)
  case Nil
  show ?case by simp
next
  case (Cons p data)
  obtain sid v where p: "p = (sid, v)" by (cases p)
  let ?out1 = "if fst (step sid v md s) then AList.update sid v out else out"
  have "count_of s k \<le> count_of (snd (step sid v md s)) k" by (rule step_count_mono)
  also have "\<dots> \<le> count_of (snd (validate_loop data md ?out1 (snd (step sid v md s)))) k"
    by (rule Cons.IH)
  finally show ?case by (simp add: p validate_loop_step)
qed

lemma loop_tracker_mono:
  "last_monotonic_values s k = Some t \<Longrightarrow>
     \<exists>t'. last_monotonic_values (snd (validate_loop data md out s)) k = Some t' \<and> t \<le> t'"
proof (induction data arbitrary: out s t)
  case Nil
  then show ?case by simp
next
  case (Cons p data)
  obtain sid v where p: "p = (sid, v)" by (cases p)
  let ?out1 = "if fst (step sid v md s) then AList.update sid v out else out"
  from step_tracker_mono [OF Cons.prems, of sid v md]
  obtain t1 where t1: "last_monotonic_values (snd (step sid v md s)) k = Some t1" "t \<le> t1"
    by blast
  from Cons.IH [OF t1(1), of ?out1]
  obtain t' where "last_monotonic_values
      (snd (validate_loop data md ?out1 (snd (step sid v md s)))) k = Some t'" "t1 \<le> t'"
    by blast
  with t1 show ?case by (auto simp: p validate_loop_step)
qed

lemma loop_failures:
  "f \<in> set (recent_failures (stats (snd (validate_loop data md out s)))) \<Longrightarrow>
     f \<in> set (recent_failures (stats s)) \<or> sensor_id f \<in> fst ` set data"
proof (induction data arbitrary: out s)
  case Nil
  then show ?case by simp
next
  case (Cons p data)
  obtain sid v where p: "p = (sid, v)" by (cases p)
  let ?out1 = "if fst (step sid v md s) then AList.update sid v out else out"
  from Cons.prems have "f \<in> set (recent_failures (stats (snd
      (validate_loop data md ?out1 (snd (step sid v md s))))))"
    by (simp add: p validate_loop_step)
  from Cons.IH [OF this] step_failures [of f sid v md s] show ?case
    by (auto simp: p)
qed

lemma distinct_key_split:
  assumes "distinct (map fst data)" "(sid, v) \<in> set data"
  obtains pre post where "data = pre @ (sid, v) # post"
    "sid \<notin> fst ` set pre" "sid \<notin> fst ` set post"
proof -
  from assms(2) obtain pre post where d: "data = pre @ (sid, v) # post"
    by (auto simp: in_set_conv_decomp)
  with assms(1) have "sid \<notin> fst ` set pre" "sid \<notin> fst ` set post"
    by auto
  with d that show thesis by blast
qed

text \<open>
  The verdict on a key of a batch is the verdict of one loop iteration, taken in a state
  that agrees with the state before the call on everything the verdict on this key reads.
\<close>

lemma loop_at_key:
  assumes "distinct (map fst data)" "(sid, v) \<in> set data"
  shows "\<exists>s_mid. local_eq sid s s_mid \<and>
            map_of (fst (validate_loop data md out s)) sid =
              (if fst (step sid v md s_mid) then Some v else map_of out sid) \<and>
            local_eq sid (snd (step sid v md s_mid)) (snd (validate_loop data md out s))"
proof -
  from assms obtain pre post where d: "data = pre @ (sid, v) # post"
    and pre: "sid \<notin> fst ` set pre" and post: "sid \<notin> fst ` set post"
    by (rule distinct_key_split)
  let ?o1 = "fst (validate_loop pre md out s)"
  let ?s1 = "snd (validate_loop pre md out s)"
  let ?o2 = "if fst (step sid v md ?s1) then AList.update sid v ?o1 else ?o1"
  let ?s2 = "snd (step sid v md ?s1)"
  have eq: "validate_loop data md out s = validate_loop post md ?o2 ?s2"
    by (simp add: d validate_loop_append validate_loop_step)
  from loop_other_key [OF pre, of md out s]
  have 1: "map_of ?o1 sid = map_of out sid" "local_eq sid s ?s1" by simp_all
  from loop_other_key [OF post, of md ?o2 ?s2]
  have 2: "map_of (fst (validate_loop post md ?o2 ?s2)) sid = map_of ?o2 sid"
    "local_eq sid ?s2 (snd (validate_loop post md ?o2 ?s2))" by simp_all
  have "map_of ?o2 sid = (if fst (step sid v md ?s1) then Some v else map_of out sid)"
    using 1(1) by (simp add: update_conv')
  with 1 2 eq show ?thesis by auto
qed

lemma step_rejected_numeric: "\<not> fst (step sid v md s) \<Longrightarrow> is_numeric v"
  using validate_value_passthrough [of v sid md s] by (cases "is_numeric v") (simp_all add: step_def)

lemma loop_failures_numeric:
  "f \<in> set (recent_failures (stats (snd (validate_loop data md out s)))) \<Longrightarrow>
     f \<in> set (recent_failures (stats s)) \<or>
     (\<exists>v. (sensor_id f, v) \<in> set data \<and> is_numeric v)"
proof (induction data arbitrary: out s)
  case Nil
  then show ?case by simp
next
  case (Cons p data)
  obtain sid v where p: "p = (sid, v)" by (cases p)
  let ?out1 = "if fst (step sid v md s) then AList.update sid v out else out"
  from Cons.prems have "f \<in> set (recent_failures (stats (snd
      (validate_loop data md ?out1 (snd (step sid v md s))))))"
    by (simp add: p validate_loop_step)
  from Cons.IH [OF this] step_failures [of f sid v md s] step_rejected_numeric [of sid v md s]
  show ?case by (auto simp: p)
qed

lemma distinct_map_of: "distinct (map fst data) \<Longrightarrow> (k, v) \<in> set data \<Longrightarrow> map_of data k = Some v"
  by simp

section \<open>The rounding to a double\<close>

lemma log2_up_bounds:
  "1 \<le> x \<Longrightarrow> 0 \<le> log2_up x \<and> 2 ^ nat (log2_up x) \<le> x \<and> x < 2 * 2 ^ nat (log2_up x)"
proof (induction x rule: log2_up.induct)
  case (1 x)
  show ?case
  proof (cases "2 \<le> x")
    case True
    then have "1 \<le> x / 2" by simp
    from "1.IH" [OF True this]
    have ih: "0 \<le> log2_up (x / 2)" "2 ^ nat (log2_up (x / 2)) \<le> x / 2"
      "x / 2 < 2 * 2 ^ nat (log2_up (x / 2))" by simp_all
    have e: "log2_up x = log2_up (x / 2) + 1"
      using True by (subst log2_up.simps) simp
    from ih(1) have n: "nat (log2_up (x / 2) + 1) = Suc (nat (log2_up (x / 2)))" by simp
    from ih show ?thesis unfolding e n by simp
  next
    case False
    then have "log2_up x = 0" by (subst log2_up.simps) simp
    with False "1.prems" show ?thesis by simp
  qed
qed

lemma log2_down_bounds:
  "0 < x \<Longrightarrow> x < 1 \<Longrightarrow>
     log2_down x < 0 \<and> 1 \<le> x * 2 ^ nat (- log2_down x) \<and> x * 2 ^ nat (- log2_down x) < 2"
proof (induction x rule: log2_down.induct)
  case (1 x)
  from "1.prems" have c: "0 < x \<and> x < 1" by simp
  then have e: "log2_down x = log2_down (2 * x) - 1"
    by (subst log2_down.simps) simp
  show ?case
  proof (cases "2 * x < 1")
    case True
    with c have "0 < 2 * x" by simp
    from "1.IH" [OF c this True]
    have ih: "log2_down (2 * x) < 0" "1 \<le> 2 * x * 2 ^ nat (- log2_down (2 * x))"
      "2 * x * 2 ^ nat (- log2_down (2 * x)) < 2" by simp_all
    from ih(1) have n: "nat (- (log2_down (2 * x) - 1)) = Suc (nat (- log2_down (2 * x)))"
      by simp
    from ih show ?thesis unfolding e n by (simp add: mult.assoc mult.left_commute)
  next
    case False
    then have "log2_down (2 * x) = 0" by (subst log2_down.simps) simp
    with False c show ?thesis unfolding e by simp
  qed
qed

text \<open>The exponent brackets the number: \<open>x / 2 ^ e\<close> lies in \<open>[1, 2)\<close>.\<close>

lemma double_exponent_bounds:
  assumes "0 < x"
  shows "1 \<le> unscale x (double_exponent x) \<and> unscale x (double_exponent x) < 2"
proof (cases "1 \<le> x")
  case True
  from log2_up_bounds [OF True] show ?thesis
    using True by (simp add: double_exponent_def unscale_def field_simps)
next
  case False
  with assms log2_down_bounds [of x] show ?thesis
    by (simp add: double_exponent_def unscale_def)
qed

lemma round_half_even_error: "\<bar>of_int (round_half_even y) - y\<bar> \<le> 1 / 2"
proof -
  have "of_int \<lfloor>y\<rfloor> \<le> y" "y < of_int \<lfloor>y\<rfloor> + 1" by linarith+
  then show ?thesis by (auto simp: round_half_even_def Let_def)
qed

lemma scale_unscale: "scale m k = unscale (of_int m) (- k)"
  by (auto simp: scale_def unscale_def)

lemma unscale_pos: "unscale 1 k > 0"
  by (simp add: unscale_def)

lemma unscale_mult: "unscale y k = y * unscale 1 k"
  by (simp add: unscale_def)

lemma unscale_inverse: "unscale 1 k * unscale 1 (- k) = 1"
  by (auto simp: unscale_def)

text \<open>
  The result of the rounding is an integer multiple of the unit in the last place, and it is
  at most half a unit away from the number.
\<close>

lemma round_double_nearest:
  assumes "x \<noteq> 0" and "k = max (double_exponent \<bar>x\<bar>) (- 1022) - 52"
  shows "round_double x = sgn x * scale (round_half_even (unscale \<bar>x\<bar> k)) k"
    and "\<bar>round_double x - x\<bar> \<le> scale 1 k / 2"
proof -
  let ?m = "round_half_even (unscale \<bar>x\<bar> k)"
  show r: "round_double x = sgn x * scale ?m k"
    using assms by (simp add: round_double_def Let_def)
  have u: "scale 1 k = unscale 1 (- k)" by (simp add: scale_unscale)
  have p: "0 < unscale 1 (- k)" by (rule unscale_pos)
  have "\<bar>of_int ?m - unscale \<bar>x\<bar> k\<bar> \<le> 1 / 2" by (rule round_half_even_error)
  then have "\<bar>of_int ?m - unscale \<bar>x\<bar> k\<bar> * unscale 1 (- k) \<le> 1 / 2 * unscale 1 (- k)"
    using p by (simp add: mult_right_mono)
  moreover have "\<bar>of_int ?m - unscale \<bar>x\<bar> k\<bar> * unscale 1 (- k) =
      \<bar>of_int ?m * unscale 1 (- k) - unscale \<bar>x\<bar> k * unscale 1 (- k)\<bar>"
    using p by (simp add: abs_mult left_diff_distrib [symmetric])
  moreover have "unscale \<bar>x\<bar> k * unscale 1 (- k) = \<bar>x\<bar>"
    using unscale_inverse [of k] by (subst unscale_mult [of "\<bar>x\<bar>"]) (simp add: mult.assoc)
  moreover have "of_int ?m * unscale 1 (- k) = scale ?m k"
    by (simp add: scale_unscale unscale_mult [of "of_int ?m"])
  ultimately have d: "\<bar>scale ?m k - \<bar>x\<bar>\<bar> \<le> scale 1 k / 2" using u by simp
  have "\<bar>sgn x * scale ?m k - x\<bar> = \<bar>scale ?m k - \<bar>x\<bar>\<bar>"
    using assms(1) by (cases "0 < x") (simp_all add: sgn_if abs_if)
  with d r show "\<bar>round_double x - x\<bar> \<le> scale 1 k / 2" by simp
qed

section \<open>Calls and sequences of calls\<close>

lemma validate_data_config:
  "enable_validation (snd (validate_data data md s)) = enable_validation s \<and>
   outlier_sensitivity (snd (validate_data data md s)) = outlier_sensitivity s \<and>
   custom_ranges (snd (validate_data data md s)) = custom_ranges s"
  by (simp add: validate_data_def loop_config)

lemma validate_data_tracker_mono:
  "last_monotonic_values s k = Some t \<Longrightarrow>
     \<exists>t'. last_monotonic_values (snd (validate_data data md s)) k = Some t' \<and> t \<le> t'"
  using loop_tracker_mono [of s k t data md "[]"] by (simp add: validate_data_def)

lemma validate_data_count_mono: "count_of s k \<le> count_of (snd (validate_data data md s)) k"
  by (simp add: validate_data_def loop_count_mono)

lemma run_calls_snd [simp]:
  "snd (run_calls ((data, md) # calls) s) = snd (run_calls calls (snd (validate_data data md s)))"
  by (simp split: prod.splits)

lemma run_calls_config:
  "enable_validation (snd (run_calls calls s)) = enable_validation s \<and>
   outlier_sensitivity (snd (run_calls calls s)) = outlier_sensitivity s \<and>
   custom_ranges (snd (run_calls calls s)) = custom_ranges s"
proof (induction calls arbitrary: s)
  case Nil
  show ?case by simp
next
  case (Cons c calls)
  obtain data md where c: "c = (data, md)" by (cases c)
  from Cons.IH [of "snd (validate_data data md s)"] validate_data_config [of data md s]
  show ?case by (simp add: c del: run_calls.simps)
qed

lemma run_calls_tracker_mono:
  "last_monotonic_values s k = Some t \<Longrightarrow>
     \<exists>t'. last_monotonic_values (snd (run_calls calls s)) k = Some t' \<and> t \<le> t'"
proof (induction calls arbitrary: s t)
  case Nil
  then show ?case by simp
next
  case (Cons c calls)
  obtain data md where c: "c = (data, md)" by (cases c)
  from validate_data_tracker_mono [OF Cons.prems, of data md]
  obtain t1 where t1: "last_monotonic_values (snd (validate_data data md s)) k = Some t1" "t \<le> t1"
    by blast
  from Cons.IH [OF t1(1)]
  obtain t' where "last_monotonic_values (snd (run_calls calls (snd (validate_data data md s)))) k
      = Some t'" "t1 \<le> t'" by blast
  with t1 show ?case by (auto simp: c simp del: run_calls.simps)
qed

lemma run_calls_count_mono: "count_of s k \<le> count_of (snd (run_calls calls s)) k"
proof (induction calls arbitrary: s)
  case Nil
  show ?case by simp
next
  case (Cons c calls)
  obtain data md where c: "c = (data, md)" by (cases c)
  have "count_of s k \<le> count_of (snd (validate_data data md s)) k"
    by (rule validate_data_count_mono)
  also have "\<dots> \<le> count_of (snd (run_calls calls (snd (validate_data data md s)))) k"
    by (rule Cons.IH)
  finally show ?case by (simp add: c del: run_calls.simps)
qed

section \<open>Concrete runs\<close>

lemmas eval_defs =
  new_validator_def new_stats_def validate_data_def validate_loop.simps get_sensor_unit_def
  infer_unit_def startswith_def validate_range_def validate_monotonic_def
  validate_outlier_def update_history_def max_history_def MODBUS_ERROR_VALUES_def
  DEFAULT_RANGES_def SENSOR_SPECIFIC_RANGES_def MONOTONIC_INCREASING_SENSORS_def reject_def
  record_rejection_def max_recent_failures_def is_modbus_error.simps
  py_sum_def float_add_def float_sub_def float_mul_def float_div_def round_double_def
  double_exponent_def round_half_even_def log2_up.simps log2_down.simps unscale_def scale_def
  Let_def

lemma ppv_state:
  "run_calls ppv_calls (new_validator True 5 None) =
     ([[(''ppv'', VNum (Fin 100))], [(''ppv'', VNum (Fin 102))], [(''ppv'', VNum (Fin 98))]],
      (new_validator True 5 None)\<lparr>value_history := [''ppv'' \<mapsto> [100, 102, 98]]\<rparr>)"
  by (simp add: ppv_calls_def eval_defs)


lemma e_total_state:
  "run_calls e_total_calls (new_validator True 5 None) =
     ([[(''e_total'', VNum (Fin 100))], [(''e_total'', VNum (Fin 101))],
       [(''e_total'', VNum (Fin 102))]],
      (new_validator True 5 None)
        \<lparr>value_history := [''e_total'' \<mapsto> [100, 101, 102]],
         last_monotonic_values := [''e_total'' \<mapsto> 102]\<rparr>)"
  by (simp add: e_total_calls_def eval_defs)

lemma ppv_ten_state:
  "snd (run_calls ppv_ten_calls (new_validator True 5 None)) =
     (new_validator True 5 None)
       \<lparr>value_history := [''ppv'' \<mapsto> [100, 101, 102, 103, 104, 105, 106, 107, 108, 109]]\<rparr>"
  by (simp add: ppv_ten_calls_def eval_defs)

text \<open>
  The rounding at work: one tenth and four thirds are not doubles, and a tie goes to the
  even significand.
\<close>

lemma round_double_examples:
  "round_double (1 / 10) = 3602879701896397 / 2 ^ 55 \<and>
   round_double (4 / 3) = 6004799503160661 / 2 ^ 52 \<and>
   round_double 505 = 505 \<and>
   round_double (2 ^ 53 + 1) = 2 ^ 53 \<and>
   round_double (2 ^ 53 + 3) = 2 ^ 53 + 4 \<and>
   round_double (- (2 ^ 53 + 3)) = - (2 ^ 53 + 4)"
  by (simp add: eval_defs)

text \<open>
  Two histories on which the rounding decides: after 100, 100 and 101 the value 602 deviates
  from the exact mean by exactly five times the mean and is rejected, and the float mean of
  0.25, 0 and 0.05 lies just below 0.1 although the exact mean of 0.25, 0 and one twentieth
  is 0.1.
\<close>

lemma outlier_rounding_examples:
  "\<not> fst (validate_outlier ''ppv'' 602
       ((new_validator True 5 None)\<lparr>value_history := [''ppv'' \<mapsto> [100, 100, 101]]\<rparr>)) \<and>
   \<bar>602 - mean [100, 100, 101]\<bar> = \<bar>mean [100, 100, 101]\<bar> * 5 \<and>
   \<bar>float_mean [0.25, 0, round_double 0.05]\<bar> < round_double 0.1 \<and>
   mean [0.25, 0, 0.05] = 0.1 \<and>
   fst (validate_outlier ''ppv'' 1
       ((new_validator True 5 None)
          \<lparr>value_history := [''ppv'' \<mapsto> [0.25, 0, round_double 0.05]]\<rparr>))"
proof -
  have 1: "\<not> fst (validate_outlier ''ppv'' 602
       ((new_validator True 5 None)\<lparr>value_history := [''ppv'' \<mapsto> [100, 100, 101]]\<rparr>))"
    by (simp add: eval_defs)
  have 2: "\<bar>602 - mean [100, 100, 101]\<bar> = \<bar>mean [100, 100, 101]\<bar> * 5"
    by (simp add: mean_def)
  have 3: "\<bar>float_mean [0.25, 0, round_double 0.05]\<bar> < round_double 0.1"
    by (simp add: float_mean_def eval_defs)
  have 4: "mean [0.25, 0, 0.05] = 0.1" by (simp add: mean_def)
  have 5: "fst (validate_outlier ''ppv'' 1
       ((new_validator True 5 None)
          \<lparr>value_history := [''ppv'' \<mapsto> [0.25, 0, round_double 0.05]]\<rparr>))"
    by (simp add: eval_defs)
  from 1 2 3 4 5 show ?thesis by blast
qed

section \<open>Acceptance of plausible values\<close>




section \<open>Rejected values and the rolling state\<close>

text \<open>The half of the invariant that holds: a rejected value never enters the history.\<close>

lemma rejected_value_keeps_history:
  assumes "distinct (map fst data)" and "(sid, v) \<in> set data"
    and "map_of (fst (validate_data data md s)) sid = None"
  shows "value_history (snd (validate_data data md s)) sid = value_history s sid"
proof (cases "enable_validation s")
  case False
  with assms show ?thesis by (simp add: validate_data_def)
next
  case True
  then have vd: "validate_data data md s = validate_loop data md [] s"
    by (simp add: validate_data_def)
  from loop_at_key [OF assms(1,2), of s md "[]"]
  obtain s_mid where mid: "local_eq sid s s_mid"
    "map_of (fst (validate_loop data md [] s)) sid =
       (if fst (step sid v md s_mid) then Some v else map_of [] sid)"
    "local_eq sid (snd (step sid v md s_mid)) (snd (validate_loop data md [] s))"
    by blast
  from mid(2) assms(3) vd have "\<not> fst (step sid v md s_mid)"
    by (simp split: if_splits)
  then have "value_history (snd (step sid v md s_mid)) = value_history s_mid"
    by (rule step_rejected_history)
  with mid(1,3) vd show ?thesis by (simp add: local_eq_def)
qed

text \<open>
  Claim C2 at a concrete input. The lifetime counter \<^verbatim>\<open>e_total\<close> has had 100, 101 and
  102 accepted, so its tracker holds 102. The value 700 passes the sentinel, finiteness,
  range and monotonic checks, and the monotonic check stores it in the tracker; the outlier
  check then rejects it. The key is absent from the output and the history is unchanged, but
  the tracker holds 700, and the next reading 103 is rejected as a regression.
\<close>

theorem rejected_outlier_moves_tracker:
  "map_of (fst (validate_data [(''e_total'', VNum (Fin 700))] None
     (snd (run_calls e_total_calls (new_validator True 5 None))))) ''e_total'' = None \<and>
   last_monotonic_values (snd (run_calls e_total_calls (new_validator True 5 None))) ''e_total''
     = Some 102 \<and>
   last_monotonic_values (snd (validate_data [(''e_total'', VNum (Fin 700))] None
     (snd (run_calls e_total_calls (new_validator True 5 None))))) ''e_total'' = Some 700 \<and>
   value_history (snd (validate_data [(''e_total'', VNum (Fin 700))] None
     (snd (run_calls e_total_calls (new_validator True 5 None))))) ''e_total''
     = Some [100, 101, 102] \<and>
   map (reason) (recent_failures (stats (snd (validate_data [(''e_total'', VNum (Fin 700))] None
     (snd (run_calls e_total_calls (new_validator True 5 None))))))) = [OutlierMean 700 101] \<and>
   fst (run_calls [([(''e_total'', VNum (Fin 700))], None), ([(''e_total'', VNum (Fin 103))], None)]
     (snd (run_calls e_total_calls (new_validator True 5 None)))) = [[], []]"
  by (simp add: e_total_state) (simp add: eval_defs)

section \<open>Disabled validation\<close>

text \<open>
  Claim C3. When \<open>enable_validation\<close> is false, \<open>validate_data\<close> returns the input
  mapping itself and the validator it was called on: the rolling history, the monotonic
  trackers, the rejection counters and the failure log are all fields of that record, so
  none of them changes, whatever the batch and the metadata hold.
\<close>

theorem disabled_validation_is_identity:
  "\<not> enable_validation s \<Longrightarrow> validate_data data md s = (data, s)"
  by (simp add: validate_data_def)

theorem disabled_validation_is_identity_witness:
  "\<not> enable_validation (new_validator False 5 None) \<and>
   validate_data [(''e_total'', VNum (Fin 65535)), (''vgrid'', VNum NaN), (''mode'', VStr ''on'')]
       None (new_validator False 5 None) =
     ([(''e_total'', VNum (Fin 65535)), (''vgrid'', VNum NaN), (''mode'', VStr ''on'')],
      new_validator False 5 None)"
  using disabled_validation_is_identity
    [of "new_validator False 5 None"
        "[(''e_total'', VNum (Fin 65535)), (''vgrid'', VNum NaN), (''mode'', VStr ''on'')]" None]
  by (simp add: new_validator_def)

section \<open>Monotonic sensors\<close>

lemma accepted_sets_tracker:
  assumes "enable_validation s" and "sid \<in> MONOTONIC_INCREASING_SENSORS"
    and "distinct (map fst data)" and "(sid, VNum (Fin x)) \<in> set data"
    and "map_of (fst (validate_data data md s)) sid = Some (VNum (Fin x))"
  shows "last_monotonic_values (snd (validate_data data md s)) sid = Some x"
proof -
  from assms(1) have vd: "validate_data data md s = validate_loop data md [] s"
    by (simp add: validate_data_def)
  from loop_at_key [OF assms(3,4), of s md "[]"]
  obtain s_mid where mid:
    "map_of (fst (validate_loop data md [] s)) sid =
       (if fst (step sid (VNum (Fin x)) md s_mid) then Some (VNum (Fin x)) else map_of [] sid)"
    "local_eq sid (snd (step sid (VNum (Fin x)) md s_mid)) (snd (validate_loop data md [] s))"
    by blast
  from mid(1) assms(5) vd have acc: "fst (step sid (VNum (Fin x)) md s_mid)"
    by (simp split: if_splits)
  with step_shape [of sid "VNum (Fin x)" md s_mid] assms(2)
  have "last_monotonic_values (snd (step sid (VNum (Fin x)) md s_mid)) sid = Some x"
    by auto
  with mid(2) vd show ?thesis by (simp add: local_eq_def)
qed

lemma regression_rejected:
  assumes "enable_validation s" and "sid \<in> MONOTONIC_INCREASING_SENSORS"
    and "last_monotonic_values s sid = Some t" and "w < t"
    and "distinct (map fst data)" and "(sid, VNum (Fin w)) \<in> set data"
  shows "map_of (fst (validate_data data md s)) sid = None"
proof -
  from assms(1) have vd: "validate_data data md s = validate_loop data md [] s"
    by (simp add: validate_data_def)
  from loop_at_key [OF assms(5,6), of s md "[]"]
  obtain s_mid where mid: "local_eq sid s s_mid"
    "map_of (fst (validate_loop data md [] s)) sid =
       (if fst (step sid (VNum (Fin w)) md s_mid) then Some (VNum (Fin w)) else map_of [] sid)"
    by blast
  from mid(1) assms(2,3,4) have "regresses s_mid sid w"
    by (simp add: regresses_def local_eq_def)
  then have "\<not> fst (step sid (VNum (Fin w)) md s_mid)"
    unfolding step_verdict validate_value_verdict by simp
  with mid(2) vd show ?thesis by simp
qed

text \<open>
  Claim C4. Let \<open>sid\<close> be in the monotonic set and let the value \<open>V\<close> be accepted by a
  call of \<open>validate_data\<close>. Then, after any further calls, a batch that submits a value
  \<open>w < V\<close> for \<open>sid\<close> has the key rejected. Right after the acceptance the tracker
  holds \<open>V\<close>, and \<open>V\<close> itself passes the monotonic check: only a strictly smaller value
  is a regression. For \<^verbatim>\<open>e_total\<close> on a validator built with the defaults, the readings
  100, 105, 103, 105, 110 are accepted, accepted, rejected, accepted, accepted.
\<close>

theorem monotonic_non_regression:
  assumes "enable_validation s" and "sid \<in> MONOTONIC_INCREASING_SENSORS"
    and "distinct (map fst d0)" and "(sid, VNum (Fin V)) \<in> set d0"
    and "map_of (fst (validate_data d0 md0 s)) sid = Some (VNum (Fin V))"
    and "distinct (map fst d)" and "(sid, VNum (Fin w)) \<in> set d" and "w < V"
  shows "map_of (fst (validate_data d md
            (snd (run_calls calls (snd (validate_data d0 md0 s)))))) sid = None \<and>
         last_monotonic_values (snd (validate_data d0 md0 s)) sid = Some V \<and>
         fst (validate_monotonic sid V (snd (validate_data d0 md0 s))) \<and>
         map (\<lambda>out. map_of out ''e_total'')
             (fst (run_calls e_total_scenario (new_validator True 5 None))) =
           [Some (VNum (Fin 100)), Some (VNum (Fin 105)), None,
            Some (VNum (Fin 105)), Some (VNum (Fin 110))]"
proof -
  let ?s1 = "snd (validate_data d0 md0 s)"
  let ?s2 = "snd (run_calls calls ?s1)"
  have tr: "last_monotonic_values ?s1 sid = Some V"
    using assms(1-5) by (rule accepted_sets_tracker)
  from run_calls_tracker_mono [OF tr, of calls]
  obtain t where t: "last_monotonic_values ?s2 sid = Some t" "V \<le> t" by blast
  have en: "enable_validation ?s2"
    using assms(1) by (simp add: run_calls_config validate_data_config)
  from t(2) assms(8) have "w < t" by simp
  from regression_rejected [OF en assms(2) t(1) this assms(6,7)]
  have 1: "map_of (fst (validate_data d md ?s2)) sid = None" .
  have 2: "fst (validate_monotonic sid V ?s1)"
    using tr by (simp add: validate_monotonic_verdict regresses_def)
  have 3: "map (\<lambda>out. map_of out ''e_total'')
             (fst (run_calls e_total_scenario (new_validator True 5 None))) =
           [Some (VNum (Fin 100)), Some (VNum (Fin 105)), None,
            Some (VNum (Fin 105)), Some (VNum (Fin 110))]"
    by (simp add: e_total_scenario_def eval_defs)
  from 1 tr 2 3 show ?thesis by simp
qed

theorem monotonic_non_regression_witness:
  "enable_validation (new_validator True 5 None) \<and>
   ''e_total'' \<in> MONOTONIC_INCREASING_SENSORS \<and>
   distinct (map fst [(''e_total'', VNum (Fin 100))]) \<and>
   (''e_total'', VNum (Fin 100)) \<in> set [(''e_total'', VNum (Fin 100))] \<and>
   map_of (fst (validate_data [(''e_total'', VNum (Fin 100))] None (new_validator True 5 None)))
     ''e_total'' = Some (VNum (Fin 100)) \<and>
   distinct (map fst [(''e_total'', VNum (Fin 99))]) \<and>
   (''e_total'', VNum (Fin 99)) \<in> set [(''e_total'', VNum (Fin 99))] \<and>
   (99::real) < 100 \<and>
   map_of (fst (validate_data [(''e_total'', VNum (Fin 99))] None
     (snd (run_calls [([(''e_total'', VNum (Fin 105))], None)]
        (snd (validate_data [(''e_total'', VNum (Fin 100))] None (new_validator True 5 None)))))))
     ''e_total'' = None \<and>
   last_monotonic_values
     (snd (validate_data [(''e_total'', VNum (Fin 100))] None (new_validator True 5 None)))
     ''e_total'' = Some 100"
proof -
  let ?s = "new_validator True 5 None"
  have h1: "enable_validation ?s" by (simp add: new_validator_def)
  have h2: "''e_total'' \<in> MONOTONIC_INCREASING_SENSORS"
    by (simp add: MONOTONIC_INCREASING_SENSORS_def)
  have h3: "distinct (map fst [(''e_total'', VNum (Fin 100))])" by simp
  have h4: "(''e_total'', VNum (Fin 100)) \<in> set [(''e_total'', VNum (Fin 100))]" by simp
  have h5: "map_of (fst (validate_data [(''e_total'', VNum (Fin 100))] None ?s))
     ''e_total'' = Some (VNum (Fin 100))" by (simp add: eval_defs)
  have h6: "distinct (map fst [(''e_total'', VNum (Fin 99))])" by simp
  have h7: "(''e_total'', VNum (Fin 99)) \<in> set [(''e_total'', VNum (Fin 99))]" by simp
  have h8: "(99::real) < 100" by simp
  from monotonic_non_regression [OF h1 h2 h3 h4 h5 h6 h7 h8,
      of None "[([(''e_total'', VNum (Fin 105))], None)]"] h1 h2 h3 h4 h5 h6 h7 h8
  show ?thesis by simp
qed

section \<open>The range check\<close>

text \<open>
  Claim C5. The range check consults exactly one tier: the custom range of the sensor if the
  constructor was given one, else the built-in sensor-specific range if there is one, else
  the default range of the unit if the unit is known and has one, else nothing (the value
  passes). The value passes iff it lies in the inclusive interval of that tier. For
  \<^verbatim>\<open>battery_soc\<close> the value 150 is rejected with the sensor-specific range (0, 100) as
  the reason, and 42 is accepted; a custom range (0, 200) for the same sensor accepts 150.
  For a sensor whose unit is inferred as V, 500 is accepted and 1500 is rejected with the
  unit range (0, 1000).
\<close>

theorem range_precedence:
  "fst (validate_range sid x unit s) =
     (case custom_ranges s sid of
        Some (lo, hi) \<Rightarrow> lo \<le> x \<and> x \<le> hi
      | None \<Rightarrow>
          (case SENSOR_SPECIFIC_RANGES sid of
             Some (lo, hi) \<Rightarrow> lo \<le> x \<and> x \<le> hi
           | None \<Rightarrow>
               (case unit of
                  None \<Rightarrow> True
                | Some u \<Rightarrow>
                    (case DEFAULT_RANGES u of
                       None \<Rightarrow> True
                     | Some (lo, hi) \<Rightarrow> lo \<le> x \<and> x \<le> hi)))) \<and>
   get_sensor_unit ''battery_soc'' None = Some ''%'' \<and>
   validate_data [(''battery_soc'', VNum (Fin 150))] None (new_validator True 5 None) =
     ([], reject ''battery_soc'' (VNum (Fin 150)) (OutsideSensorSpecificRange 0 100)
            (new_validator True 5 None)) \<and>
   fst (validate_data [(''battery_soc'', VNum (Fin 42))] None (new_validator True 5 None)) =
     [(''battery_soc'', VNum (Fin 42))] \<and>
   fst (validate_data [(''battery_soc'', VNum (Fin 150))] None
          (new_validator True 5 (Some [''battery_soc'' \<mapsto> (0, 200)]))) =
     [(''battery_soc'', VNum (Fin 150))] \<and>
   get_sensor_unit ''vbus'' None = Some ''V'' \<and>
   fst (validate_data [(''vbus'', VNum (Fin 500))] None (new_validator True 5 None)) =
     [(''vbus'', VNum (Fin 500))] \<and>
   validate_data [(''vbus'', VNum (Fin 1500))] None (new_validator True 5 None) =
     ([], reject ''vbus'' (VNum (Fin 1500)) (OutsideUnitRange ''V'' 0 1000)
            (new_validator True 5 None))"
proof -
  have 1: "fst (validate_range sid x unit s) =
     (case custom_ranges s sid of
        Some (lo, hi) \<Rightarrow> lo \<le> x \<and> x \<le> hi
      | None \<Rightarrow>
          (case SENSOR_SPECIFIC_RANGES sid of
             Some (lo, hi) \<Rightarrow> lo \<le> x \<and> x \<le> hi
           | None \<Rightarrow>
               (case unit of
                  None \<Rightarrow> True
                | Some u \<Rightarrow>
                    (case DEFAULT_RANGES u of
                       None \<Rightarrow> True
                     | Some (lo, hi) \<Rightarrow> lo \<le> x \<and> x \<le> hi))))"
    by (auto simp: validate_range_def DEFAULT_RANGES_empty split: option.splits)
  have 2: "get_sensor_unit ''battery_soc'' None = Some ''%''"
    by (simp add: eval_defs)
  have 3: "validate_data [(''battery_soc'', VNum (Fin 150))] None (new_validator True 5 None) =
     ([], reject ''battery_soc'' (VNum (Fin 150)) (OutsideSensorSpecificRange 0 100)
            (new_validator True 5 None))"
    by (simp add: eval_defs)
  have 4: "fst (validate_data [(''battery_soc'', VNum (Fin 42))] None (new_validator True 5 None)) =
     [(''battery_soc'', VNum (Fin 42))]"
    by (simp add: eval_defs)
  have 5: "fst (validate_data [(''battery_soc'', VNum (Fin 150))] None
          (new_validator True 5 (Some [''battery_soc'' \<mapsto> (0, 200)]))) =
     [(''battery_soc'', VNum (Fin 150))]"
    by (simp add: eval_defs)
  have 6: "get_sensor_unit ''vbus'' None = Some ''V''"
    by (simp add: eval_defs)
  have 7: "fst (validate_data [(''vbus'', VNum (Fin 500))] None (new_validator True 5 None)) =
     [(''vbus'', VNum (Fin 500))]"
    by (simp add: eval_defs)
  have 8: "validate_data [(''vbus'', VNum (Fin 1500))] None (new_validator True 5 None) =
     ([], reject ''vbus'' (VNum (Fin 1500)) (OutsideUnitRange ''V'' 0 1000)
            (new_validator True 5 None))"
    by (simp add: eval_defs)
  from 1 2 3 4 5 6 7 8 show ?thesis by blast
qed

section \<open>The outlier check\<close>



section \<open>Error sentinels\<close>

lemma is_modbus_error_iff:
  "is_modbus_error (Fin x) =
     (\<exists>e \<in> {65535, 32767, 32768, - 32768}. x = e \<or> \<bar>x - e\<bar> < 0.01)"
  by (auto simp: is_modbus_error.simps MODBUS_ERROR_VALUES_def)

lemma last_failure_reject:
  "recent_failures (stats (reject sid v r s)) \<noteq> [] \<and>
   last (recent_failures (stats (reject sid v r s))) =
     \<lparr>sensor_id = sid, rejected_value = v, reason = r\<rparr>"
  by (cases "recent_failures (stats s)") (auto simp: max_recent_failures_def)

lemma validate_range_reason:
  "validate_range sid x unit s = (False, s') \<Longrightarrow>
     \<exists>r. s' = reject sid (VNum (Fin x)) r s \<and> r \<noteq> ModbusErrorValue"
  by (auto simp: validate_range_def split: option.splits if_splits)

lemma validate_monotonic_reason:
  "validate_monotonic sid x s = (False, s') \<Longrightarrow>
     \<exists>r. s' = reject sid (VNum (Fin x)) r s \<and> r \<noteq> ModbusErrorValue"
  by (auto simp: validate_monotonic_def split: option.splits if_splits)

lemma validate_outlier_reason:
  "validate_outlier sid x s = (False, s') \<Longrightarrow>
     \<exists>r. s' = reject sid (VNum (Fin x)) r s \<and> r \<noteq> ModbusErrorValue"
  by (auto simp: validate_outlier_def Let_def split: option.splits if_splits)

lemma other_reason:
  assumes "\<not> is_modbus_error (Fin x)"
    and "validate_value sid (VNum (Fin x)) md s = (False, s')"
  shows "\<exists>r s0. s' = reject sid (VNum (Fin x)) r s0 \<and> r \<noteq> ModbusErrorValue"
proof -
  let ?u = "get_sensor_unit sid md"
  obtain b1 s1 where r1: "validate_range sid x ?u s = (b1, s1)" by (cases "validate_range sid x ?u s")
  show ?thesis
  proof (cases b1)
    case False
    with assms r1 have "s1 = s'" by simp
    with r1 False have "validate_range sid x ?u s = (False, s')" by simp
    from validate_range_reason [OF this] show ?thesis by blast
  next
    case True
    note b1 = this
    obtain b2 s2 where r2: "validate_monotonic sid x s1 = (b2, s2)"
      by (cases "validate_monotonic sid x s1")
    show ?thesis
    proof (cases b2)
      case False
      with assms r1 r2 b1 have "s2 = s'" by simp
      with r2 False have "validate_monotonic sid x s1 = (False, s')" by simp
      from validate_monotonic_reason [OF this] show ?thesis by blast
    next
      case True
      obtain b3 s3 where r3: "validate_outlier sid x s2 = (b3, s3)"
        by (cases "validate_outlier sid x s2")
      with assms r1 r2 b1 True have "b3 = False \<and> s3 = s'" by (cases b3) simp_all
      with r3 have "validate_outlier sid x s2 = (False, s')" by simp
      from validate_outlier_reason [OF this] show ?thesis by blast
    qed
  qed
qed

text \<open>
  Claim C7. For every sensor id, metadata and validator, a finite number is rejected as an
  error sentinel iff it equals one of 65535, 32767, 32768, -32768 or its distance to one of
  them is less than 0.01 (the source compares with \<^verbatim>\<open>< 0.01\<close>); the non-finite floats
  are never rejected with that reason. The test comes first and reads neither the unit nor
  any range: 65535 on \<^verbatim>\<open>vpv1\<close> is rejected as a sentinel although its range (0, 1000)
  would reject it too.
\<close>

theorem sentinel_rule:
  "rejected_as_sentinel sid (VNum (Fin x)) md s =
     (\<exists>e \<in> {65535, 32767, 32768, - 32768}. x = e \<or> \<bar>x - e\<bar> < 0.01) \<and>
   \<not> rejected_as_sentinel sid (VNum NaN) md s \<and>
   \<not> rejected_as_sentinel sid (VNum PosInf) md s \<and>
   \<not> rejected_as_sentinel sid (VNum NegInf) md s \<and>
   validate_data [(''vpv1'', VNum (Fin 65535))] None (new_validator True 5 None) =
     ([], reject ''vpv1'' (VNum (Fin 65535)) ModbusErrorValue (new_validator True 5 None)) \<and>
   resolved_range (custom_ranges (new_validator True 5 None)) ''vpv1''
     (get_sensor_unit ''vpv1'' None) = Some (0, 1000)"
proof -
  have 1: "rejected_as_sentinel sid (VNum (Fin x)) md s =
     (\<exists>e \<in> {65535, 32767, 32768, - 32768}. x = e \<or> \<bar>x - e\<bar> < 0.01)"
  proof (cases "is_modbus_error (Fin x)")
    case True
    then have "validate_value sid (VNum (Fin x)) md s =
        (False, reject sid (VNum (Fin x)) ModbusErrorValue s)" by simp
    with True last_failure_reject [of sid "VNum (Fin x)" ModbusErrorValue s] show ?thesis
      unfolding is_modbus_error_iff [symmetric] rejected_as_sentinel_def by simp
  next
    case False
    obtain b s' where r: "validate_value sid (VNum (Fin x)) md s = (b, s')"
      by (cases "validate_value sid (VNum (Fin x)) md s")
    have "\<not> rejected_as_sentinel sid (VNum (Fin x)) md s"
    proof (cases b)
      case True
      with r show ?thesis by (simp add: rejected_as_sentinel_def del: validate_value.simps)
    next
      case False
      with r have "validate_value sid (VNum (Fin x)) md s = (False, s')" by simp
      from other_reason [OF \<open>\<not> is_modbus_error (Fin x)\<close> this]
      obtain r0 s0 where "s' = reject sid (VNum (Fin x)) r0 s0" "r0 \<noteq> ModbusErrorValue"
        by blast
      with r last_failure_reject [of sid "VNum (Fin x)" r0 s0] show ?thesis
        by (simp add: rejected_as_sentinel_def del: validate_value.simps)
    qed
    with False show ?thesis unfolding is_modbus_error_iff [symmetric] by simp
  qed
  have 2: "\<not> rejected_as_sentinel sid (VNum n) md s" if "\<forall>x. n \<noteq> Fin x" for n
    using validate_value_nonfinite [OF that, of sid md s]
      last_failure_reject [of sid "VNum n" NonFiniteValue s]
    by (simp add: rejected_as_sentinel_def del: validate_value.simps)
  have 3: "validate_data [(''vpv1'', VNum (Fin 65535))] None (new_validator True 5 None) =
     ([], reject ''vpv1'' (VNum (Fin 65535)) ModbusErrorValue (new_validator True 5 None))"
    by (simp add: eval_defs)
  have 4: "resolved_range (custom_ranges (new_validator True 5 None)) ''vpv1''
     (get_sensor_unit ''vpv1'' None) = Some (0, 1000)"
    by (simp add: eval_defs resolved_range_def)
  from 1 2 [of NaN] 2 [of PosInf] 2 [of NegInf] 3 4 show ?thesis by simp
qed

section \<open>Values that are not numbers\<close>

text \<open>
  Claim C8. A value that is \<^verbatim>\<open>None\<close>, a string, a boolean or of any other type
  that is not a non-boolean number is accepted: the verdict is \<open>True\<close> and leaves the
  validator as it was, the key is in the output of \<open>validate_data\<close> with the same
  value, and the history, the tracker and the rejection counter of that key are the same
  after the call; every failure-log entry for the key after the call was there before.
  The model has no exception, so nothing is raised.
\<close>

theorem non_numeric_passthrough:
  assumes "\<not> is_numeric v" and "distinct (map fst data)" and "(sid, v) \<in> set data"
  shows "validate_value sid v md s = (True, s) \<and>
         map_of (fst (validate_data data md s)) sid = Some v \<and>
         value_history (snd (validate_data data md s)) sid = value_history s sid \<and>
         last_monotonic_values (snd (validate_data data md s)) sid = last_monotonic_values s sid \<and>
         rejected_count (stats (snd (validate_data data md s))) sid = rejected_count (stats s) sid \<and>
         (\<forall>f \<in> set (recent_failures (stats (snd (validate_data data md s)))).
            sensor_id f = sid \<longrightarrow> f \<in> set (recent_failures (stats s)))"
proof (cases "enable_validation s")
  case False
  with assms show ?thesis
    by (simp add: validate_data_def validate_value_passthrough)
next
  case True
  then have vd: "validate_data data md s = validate_loop data md [] s"
    by (simp add: validate_data_def)
  from loop_at_key [OF assms(2,3), of s md "[]"]
  obtain s_mid where mid: "local_eq sid s s_mid"
    "map_of (fst (validate_loop data md [] s)) sid =
       (if fst (step sid v md s_mid) then Some v else map_of [] sid)"
    "local_eq sid (snd (step sid v md s_mid)) (snd (validate_loop data md [] s))"
    by blast
  have st: "step sid v md s_mid = (True, s_mid)"
    using assms(1) step_shape [of sid v md s_mid] validate_value_passthrough [OF assms(1), of sid md s_mid]
    by (cases v) (auto simp: step_def)
  from mid(1) mid(3) st have le: "local_eq sid s (snd (validate_loop data md [] s))"
    by (auto intro: local_eq_trans)
  have fl: "f \<in> set (recent_failures (stats s))"
    if "f \<in> set (recent_failures (stats (snd (validate_loop data md [] s))))" "sensor_id f = sid"
    for f
  proof -
    from loop_failures_numeric [OF that(1)]
    consider "f \<in> set (recent_failures (stats s))"
      | v' where "(sensor_id f, v') \<in> set data" "is_numeric v'" by blast
    then show ?thesis
    proof cases
      case 1
      then show ?thesis .
    next
      case 2
      with that(2) assms(2,3) have "v' = v"
        by (metis distinct_map_of option.inject)
      with 2 assms(1) show ?thesis by simp
    qed
  qed
  from mid(2) st le fl show ?thesis
    by (simp add: vd validate_value_passthrough [OF assms(1)] local_eq_def)
qed

theorem non_numeric_passthrough_witness:
  "\<not> is_numeric (VStr ''on'') \<and>
   distinct (map fst [(''e_total'', VNum (Fin 65535)), (''work_mode'', VStr ''on'')]) \<and>
   (''work_mode'', VStr ''on'') \<in> set [(''e_total'', VNum (Fin 65535)), (''work_mode'', VStr ''on'')] \<and>
   map_of (fst (validate_data [(''e_total'', VNum (Fin 65535)), (''work_mode'', VStr ''on'')] None
     (new_validator True 5 None))) ''work_mode'' = Some (VStr ''on'') \<and>
   rejected_count (stats (snd (validate_data
     [(''e_total'', VNum (Fin 65535)), (''work_mode'', VStr ''on'')] None
     (new_validator True 5 None)))) ''work_mode'' = None"
proof -
  have h1: "\<not> is_numeric (VStr ''on'')" by simp
  have h2: "distinct (map fst [(''e_total'', VNum (Fin 65535)), (''work_mode'', VStr ''on'')])"
    by simp
  have h3: "(''work_mode'', VStr ''on'') \<in>
      set [(''e_total'', VNum (Fin 65535)), (''work_mode'', VStr ''on'')]" by simp
  from non_numeric_passthrough [OF h1 h2 h3, of None "new_validator True 5 None"] h2
  show ?thesis by (simp add: new_validator_def new_stats_def)
qed

section \<open>Bounds on the rolling state\<close>

lemma bounded_new: "bounded (new_validator enable sensitivity ranges)"
  by (simp add: bounded_def new_validator_def new_stats_def)

lemma bounded_track: "bounded s \<Longrightarrow> bounded (track sid x s)"
  by (simp add: bounded_def)

lemma bounded_reject: "bounded s \<Longrightarrow> bounded (reject sid v r s)"
  by (auto simp: bounded_def)

lemma bounded_update_history: "bounded s \<Longrightarrow> bounded (update_history sid x s)"
  by (auto simp: bounded_def update_history_def Let_def split: option.splits if_splits)

lemma step_bounded: "bounded s \<Longrightarrow> bounded (snd (step sid v md s))"
  using step_shape [of sid v md s]
  by (auto intro!: bounded_track bounded_reject bounded_update_history)

lemma loop_bounded: "bounded s \<Longrightarrow> bounded (snd (validate_loop data md out s))"
proof (induction data arbitrary: out s)
  case Nil
  then show ?case by simp
next
  case (Cons p data)
  obtain sid v where p: "p = (sid, v)" by (cases p)
  from Cons.prems have "bounded (snd (step sid v md s))" by (rule step_bounded)
  from Cons.IH [OF this] show ?case by (simp add: p validate_loop_step)
qed

lemma validate_data_bounded: "bounded s \<Longrightarrow> bounded (snd (validate_data data md s))"
  by (simp add: validate_data_def loop_bounded)

lemma run_calls_bounded: "bounded s \<Longrightarrow> bounded (snd (run_calls calls s))"
proof (induction calls arbitrary: s)
  case Nil
  then show ?case by simp
next
  case (Cons c calls)
  obtain data md where c: "c = (data, md)" by (cases c)
  from Cons.prems have "bounded (snd (validate_data data md s))" by (rule validate_data_bounded)
  from Cons.IH [OF this] show ?case by (simp add: c del: run_calls.simps)
qed

text \<open>
  Claim C9. After any sequence of \<open>validate_data\<close> calls on a validator fresh from the
  constructor, every history holds at most 10 values and the failure log at most 50 entries.
  Appending to a history of 10 values drops its first (oldest) value, and the same holds
  for a failure log of 50 entries; below the bound nothing is dropped. The rejection counter
  of a sensor never decreases, over one call and over any sequence of calls.
\<close>

theorem rolling_state_bounds:
  "(\<forall>sid h. value_history (snd (run_calls calls (new_validator enable sensitivity ranges))) sid
        = Some h \<longrightarrow> length h \<le> 10) \<and>
   length (recent_failures (stats (snd (run_calls calls
     (new_validator enable sensitivity ranges))))) \<le> 50 \<and>
   (value_history s sid = Some h \<and> length h = 10 \<longrightarrow>
      value_history (update_history sid x s) sid = Some (tl h @ [x])) \<and>
   (value_history s sid = Some h \<and> length h < 10 \<longrightarrow>
      value_history (update_history sid x s) sid = Some (h @ [x])) \<and>
   (length (recent_failures st) = 50 \<longrightarrow>
      recent_failures (record_rejection sid v r st) =
        tl (recent_failures st) @ [\<lparr>sensor_id = sid, rejected_value = v, reason = r\<rparr>]) \<and>
   (length (recent_failures st) < 50 \<longrightarrow>
      recent_failures (record_rejection sid v r st) =
        recent_failures st @ [\<lparr>sensor_id = sid, rejected_value = v, reason = r\<rparr>]) \<and>
   count_of s k \<le> count_of (snd (validate_data data md s)) k \<and>
   count_of s k \<le> count_of (snd (run_calls calls s)) k"
proof -
  have "bounded (snd (run_calls calls (new_validator enable sensitivity ranges)))"
    by (rule run_calls_bounded [OF bounded_new])
  then have 1: "\<forall>sid h. value_history (snd (run_calls calls
      (new_validator enable sensitivity ranges))) sid = Some h \<longrightarrow> length h \<le> 10"
    and 2: "length (recent_failures (stats (snd (run_calls calls
      (new_validator enable sensitivity ranges))))) \<le> 50"
    by (simp_all add: bounded_def max_history_def max_recent_failures_def)
  have 3: "value_history s sid = Some h \<and> length h = 10 \<longrightarrow>
      value_history (update_history sid x s) sid = Some (tl h @ [x])"
    by (cases h) (simp_all add: update_history_def max_history_def)
  have 4: "value_history s sid = Some h \<and> length h < 10 \<longrightarrow>
      value_history (update_history sid x s) sid = Some (h @ [x])"
    by (simp add: update_history_def max_history_def)
  have 5: "length (recent_failures st) = 50 \<longrightarrow>
      recent_failures (record_rejection sid v r st) =
        tl (recent_failures st) @ [\<lparr>sensor_id = sid, rejected_value = v, reason = r\<rparr>]"
    by (cases "recent_failures st") (simp_all add: max_recent_failures_def)
  have 6: "length (recent_failures st) < 50 \<longrightarrow>
      recent_failures (record_rejection sid v r st) =
        recent_failures st @ [\<lparr>sensor_id = sid, rejected_value = v, reason = r\<rparr>]"
    by (simp add: max_recent_failures_def)
  have 7: "count_of s k \<le> count_of (snd (validate_data data md s)) k"
    by (rule validate_data_count_mono)
  have 8: "count_of s k \<le> count_of (snd (run_calls calls s)) k"
    by (rule run_calls_count_mono)
  from 1 2 3 4 5 6 7 8 show ?thesis by blast
qed

theorem rolling_state_bounds_witness:
  "value_history (snd (run_calls ppv_ten_calls (new_validator True 5 None))) ''ppv'' =
     Some [100, 101, 102, 103, 104, 105, 106, 107, 108, 109] \<and>
   length [100, 101, 102, 103, 104, 105, 106, 107, 108, 109 :: real] \<le> 10 \<and>
   length (recent_failures (stats (snd (run_calls ppv_ten_calls (new_validator True 5 None)))))
     \<le> 50 \<and>
   length [100, 101, 102, 103, 104, 105, 106, 107, 108, 109 :: real] = 10 \<and>
   value_history (update_history ''ppv'' 110
       (snd (run_calls ppv_ten_calls (new_validator True 5 None)))) ''ppv'' =
     Some (tl [100, 101, 102, 103, 104, 105, 106, 107, 108, 109] @ [110]) \<and>
   value_history (snd (run_calls ppv_calls (new_validator True 5 None))) ''ppv'' =
     Some [100, 102, 98] \<and>
   length [100, 102, 98 :: real] < 10 \<and>
   value_history (update_history ''ppv'' 110
       (snd (run_calls ppv_calls (new_validator True 5 None)))) ''ppv'' =
     Some ([100, 102, 98] @ [110]) \<and>
   length (recent_failures full_stats) = 50 \<and>
   recent_failures (record_rejection ''ppv'' (VNum NaN) NonFiniteValue full_stats) =
     tl (recent_failures full_stats) @
       [\<lparr>sensor_id = ''ppv'', rejected_value = VNum NaN, reason = NonFiniteValue\<rparr>] \<and>
   length (recent_failures new_stats) < 50 \<and>
   recent_failures (record_rejection ''ppv'' (VNum NaN) NonFiniteValue new_stats) =
     recent_failures new_stats @
       [\<lparr>sensor_id = ''ppv'', rejected_value = VNum NaN, reason = NonFiniteValue\<rparr>] \<and>
   value_history (snd (validate_data [(''ppv'', VNum (Fin 110))] None
       (snd (run_calls ppv_ten_calls (new_validator True 5 None))))) ''ppv'' =
     Some [101, 102, 103, 104, 105, 106, 107, 108, 109, 110]"
proof -
  let ?s10 = "snd (run_calls ppv_ten_calls (new_validator True 5 None))"
  let ?s3 = "snd (run_calls ppv_calls (new_validator True 5 None))"
  let ?h10 = "[100, 101, 102, 103, 104, 105, 106, 107, 108, 109 :: real]"
  note a = rolling_state_bounds
    [where calls = ppv_ten_calls and enable = True and sensitivity = 5 and ranges = None
       and s = ?s10 and sid = "''ppv''" and h = ?h10 and x = 110 and st = full_stats
       and v = "VNum NaN" and r = NonFiniteValue]
  note b = rolling_state_bounds
    [where s = ?s3 and sid = "''ppv''" and h = "[100, 102, 98]" and x = 110 and st = new_stats
       and v = "VNum NaN" and r = NonFiniteValue]
  have h1: "value_history ?s10 ''ppv'' = Some ?h10" by (simp add: ppv_ten_state)
  have h2: "length ?h10 = 10" by simp
  have h3: "value_history ?s3 ''ppv'' = Some [100, 102, 98]" by (simp add: ppv_state)
  have h4: "length [100, 102, 98 :: real] < 10" by simp
  have h5: "length (recent_failures full_stats) = 50" by (simp add: full_stats_def)
  have h6: "length (recent_failures new_stats) < 50" by (simp add: new_stats_def)
  from a h1 have c1: "length ?h10 \<le> 10" by blast
  from a have c2: "length (recent_failures (stats ?s10)) \<le> 50" by blast
  from a h1 h2 have c3: "value_history (update_history ''ppv'' 110 ?s10) ''ppv'' =
     Some (tl ?h10 @ [110])" by blast
  from b h3 h4 have c4: "value_history (update_history ''ppv'' 110 ?s3) ''ppv'' =
     Some ([100, 102, 98] @ [110])" by blast
  from a h5 have c5: "recent_failures (record_rejection ''ppv'' (VNum NaN) NonFiniteValue full_stats) =
     tl (recent_failures full_stats) @
       [\<lparr>sensor_id = ''ppv'', rejected_value = VNum NaN, reason = NonFiniteValue\<rparr>]" by blast
  from b h6 have c6: "recent_failures (record_rejection ''ppv'' (VNum NaN) NonFiniteValue new_stats) =
     recent_failures new_stats @
       [\<lparr>sensor_id = ''ppv'', rejected_value = VNum NaN, reason = NonFiniteValue\<rparr>]" by blast
  have e: "value_history (snd (validate_data [(''ppv'', VNum (Fin 110))] None ?s10)) ''ppv'' =
     Some [101, 102, 103, 104, 105, 106, 107, 108, 109, 110]"
    by (simp add: ppv_ten_state) (simp add: eval_defs)
  from h1 c1 c2 h2 c3 h3 h4 c4 h5 c5 h6 c6 e show ?thesis by blast
qed

section \<open>Metadata without a unit\<close>



end
